theory Spec2Isabelle
  imports Main "HOL-Library.AList"
begin

section \<open>Strings and dictionaries of the source language\<close>

text \<open>
  The program is Python 3: a \<open>str\<close> is a sequence of Unicode code points, so a character
  is modelled by its code point and a string by the list of its characters. A \<open>dict\<close>
  keeps its keys in insertion order; it is modelled by an association list with distinct
  keys in which \<open>d[k] = v\<close> is \<open>AList.update k v d\<close> (the value is replaced in place when
  the key is there, the pair is appended otherwise) and \<open>d.get(k)\<close> is \<open>map_of d k\<close>.
\<close>

type_synonym pychar = nat
type_synonym pystr = "pychar list"
type_synonym 'v pydict = "(pystr \<times> 'v) list"
type_synonym message = "pystr pydict"

text \<open>An ASCII literal of the source, as the list of its code points.\<close>

definition str :: "string \<Rightarrow> pystr" where
  "str s = map of_char s"

definition SOH :: pychar where "SOH = 1"
definition PIPE :: pychar where "PIPE = 124"
definition EQ :: pychar where "EQ = 61"

text \<open>
  The characters that \<open>str.strip()\<close> removes and that \<open>\s\<close> matches in a \<open>str\<close> pattern:
  the code points for which \<open>str.isspace()\<close> holds.
\<close>

definition isspace :: "pychar \<Rightarrow> bool" where
  "isspace c \<longleftrightarrow>
     (9 \<le> c \<and> c \<le> 13) \<or> (28 \<le> c \<and> c \<le> 32) \<or> c = 133 \<or> c = 160 \<or> c = 5760 \<or>
     (8192 \<le> c \<and> c \<le> 8202) \<or> c = 8232 \<or> c = 8233 \<or> c = 8239 \<or> c = 8287 \<or> c = 12288"

text \<open>\<open>s.strip()\<close>\<close>

definition strip :: "pystr \<Rightarrow> pystr" where
  "strip s = rev (dropWhile isspace (rev (dropWhile isspace s)))"

text \<open>
  \<open>s.split(sep)\<close> for a separator of one character: one piece more than there are
  separators, empty pieces kept. The result is never the empty list.
\<close>

fun split_sep :: "pychar \<Rightarrow> pystr \<Rightarrow> pystr list" where
  "split_sep c [] = [[]]"
| "split_sep c (x # xs) =
     (if x = c then [] # split_sep c xs
      else (case split_sep c xs of [] \<Rightarrow> [[x]] | w # ws \<Rightarrow> (x # w) # ws))"

text \<open>
  \<open>re.split(r"\s+", s)\<close>: the pieces between the maximal runs of whitespace, with an empty
  piece before a leading run and after a trailing one.
\<close>

function re_split_ws :: "pystr \<Rightarrow> pystr list" where
  "re_split_ws [] = [[]]"
| "re_split_ws (x # xs) =
     (if isspace x then [] # re_split_ws (dropWhile isspace xs)
      else (case re_split_ws xs of [] \<Rightarrow> [[x]] | w # ws \<Rightarrow> (x # w) # ws))"
  by pat_completeness auto
termination
  by (relation "measure length") (auto simp: less_Suc_eq_le length_dropWhile_le)

text \<open>\<open>f.split("=", 1)\<close> for a token that contains \<open>=\<close>: the text before the first \<open>=\<close> and
  the text after it.\<close>

definition split_eq :: "pystr \<Rightarrow> pystr \<times> pystr" where
  "split_eq f = (takeWhile (\<lambda>c. c \<noteq> EQ) f, drop 1 (dropWhile (\<lambda>c. c \<noteq> EQ) f))"

text \<open>\<open>d.get(k, default)\<close>\<close>

definition get_or :: "'v pydict \<Rightarrow> pystr \<Rightarrow> 'v \<Rightarrow> 'v" where
  "get_or d k dflt = (case map_of d k of None \<Rightarrow> dflt | Some v \<Rightarrow> v)"

text \<open>\<open>a or b\<close> on strings: \<open>a\<close> unless it is empty.\<close>

definition or_str :: "pystr \<Rightarrow> pystr \<Rightarrow> pystr" where
  "or_str a b = (if a \<noteq> [] then a else b)"

section \<open>fix\_to\_csv.py\<close>

subsection \<open>Tags and values\<close>

definition TAG_MSGTYPE :: pystr where "TAG_MSGTYPE = str ''35''"
definition TAG_CLORDID :: pystr where "TAG_CLORDID = str ''11''"
definition TAG_ORIGCLORDID :: pystr where "TAG_ORIGCLORDID = str ''41''"
definition TAG_TRANSACTTIME :: pystr where "TAG_TRANSACTTIME = str ''60''"
definition TAG_SYMBOL :: pystr where "TAG_SYMBOL = str ''55''"
definition TAG_SIDE :: pystr where "TAG_SIDE = str ''54''"
definition TAG_ORDERQTY :: pystr where "TAG_ORDERQTY = str ''38''"
definition TAG_ORDTYPE :: pystr where "TAG_ORDTYPE = str ''40''"
definition TAG_PRICE :: pystr where "TAG_PRICE = str ''44''"
definition TAG_EXECTYPE :: pystr where "TAG_EXECTYPE = str ''150''"
definition TAG_ORDSTATUS :: pystr where "TAG_ORDSTATUS = str ''39''"
definition TAG_AVGPX :: pystr where "TAG_AVGPX = str ''6''"
definition TAG_LASTMKT :: pystr where "TAG_LASTMKT = str ''30''"

definition MSG_NEW_ORDER_SINGLE :: pystr where "MSG_NEW_ORDER_SINGLE = str ''D''"
definition MSG_EXEC_REPORT :: pystr where "MSG_EXEC_REPORT = str ''8''"
definition EXECTYPE_FILL :: pystr where "EXECTYPE_FILL = str ''2''"
definition ORDSTATUS_FILLED :: pystr where "ORDSTATUS_FILLED = str ''2''"
definition ORDTYPE_LIMIT :: pystr where "ORDTYPE_LIMIT = str ''2''"

subsection \<open>parse\_fix\_line\<close>

text \<open>
  The loop over the tokens of a line: an empty token and a token without \<open>=\<close> are skipped,
  any other token is split at its first \<open>=\<close> and assigned into the dictionary.
\<close>

fun add_fields :: "message \<Rightarrow> pystr list \<Rightarrow> message" where
  "add_fields msg [] = msg"
| "add_fields msg (f # fields) =
     (if f = [] then add_fields msg fields
      else if EQ \<notin> set f then add_fields msg fields
      else (case split_eq f of (k, v) \<Rightarrow> add_fields (AList.update k v msg) fields))"

definition parse_fix_line :: "pystr \<Rightarrow> message" where
  "parse_fix_line line0 =
     (let line = strip line0 in
      if line = [] then []
      else
        let fields =
          (if SOH \<in> set line then split_sep SOH line
           else if PIPE \<in> set line then split_sep PIPE line
           else re_split_ws line)
        in add_fields [] fields)"

subsection \<open>load\_orders\_and\_fills\<close>

text \<open>
  The state of the loop is the pair of \<open>orders_by_id\<close> and \<open>fills\<close>; \<open>process_line\<close> is
  the body of the loop, where \<open>continue\<close> and a branch that does nothing return the state
  as it is.
\<close>

type_synonym loader_state = "message pydict \<times> message list"

definition stored_order :: "pystr \<Rightarrow> pystr \<Rightarrow> message \<Rightarrow> message" where
  "stored_order clid ordtype msg =
     [(TAG_CLORDID, clid),
      (TAG_TRANSACTTIME, get_or msg TAG_TRANSACTTIME []),
      (TAG_SYMBOL, get_or msg TAG_SYMBOL []),
      (TAG_SIDE, get_or msg TAG_SIDE []),
      (TAG_ORDERQTY, get_or msg TAG_ORDERQTY []),
      (TAG_PRICE, get_or msg TAG_PRICE []),
      (TAG_ORDTYPE, ordtype)]"

definition process_line :: "loader_state \<Rightarrow> pystr \<Rightarrow> loader_state" where
  "process_line st line =
     (case st of (orders_by_id, fills) \<Rightarrow>
        let msg = parse_fix_line line in
        if msg = [] then st
        else
          let msgtype = map_of msg TAG_MSGTYPE in
          if msgtype = Some MSG_NEW_ORDER_SINGLE then
            (case map_of msg TAG_CLORDID of
               None \<Rightarrow> st
             | Some clid \<Rightarrow>
                 if clid = [] then st
                 else
                   (case map_of msg TAG_ORDTYPE of
                      None \<Rightarrow> st
                    | Some ordtype \<Rightarrow>
                        if ordtype \<noteq> ORDTYPE_LIMIT then st
                        else (AList.update clid (stored_order clid ordtype msg) orders_by_id,
                              fills)))
          else if msgtype = Some MSG_EXEC_REPORT then
            (if map_of msg TAG_EXECTYPE = Some EXECTYPE_FILL
                \<and> map_of msg TAG_ORDSTATUS = Some ORDSTATUS_FILLED
             then (orders_by_id, fills @ [msg])
             else st)
          else st)"

definition load_orders_and_fills :: "pystr list \<Rightarrow> loader_state" where
  "load_orders_and_fills lines = foldl process_line ([], []) lines"

subsection \<open>build\_rows\<close>

text \<open>\<open>ex.get(TAG_ORIGCLORDID) or ex.get(TAG_CLORDID)\<close>: the first operand unless it is
  \<open>None\<close> or the empty string.\<close>

definition resolve_clid :: "message \<Rightarrow> pystr option" where
  "resolve_clid ex =
     (case map_of ex TAG_ORIGCLORDID of
        None \<Rightarrow> map_of ex TAG_CLORDID
      | Some v \<Rightarrow> if v \<noteq> [] then Some v else map_of ex TAG_CLORDID)"

definition compose_row :: "message \<Rightarrow> message \<Rightarrow> pystr list" where
  "compose_row order ex =
     [get_or order TAG_CLORDID [],
      get_or order TAG_TRANSACTTIME [],
      get_or ex TAG_TRANSACTTIME [],
      or_str (get_or order TAG_SYMBOL []) (get_or ex TAG_SYMBOL []),
      or_str (get_or order TAG_SIDE []) (get_or ex TAG_SIDE []),
      or_str (get_or order TAG_ORDERQTY []) (get_or ex TAG_ORDERQTY []),
      get_or order TAG_PRICE [],
      get_or ex TAG_AVGPX [],
      get_or ex TAG_LASTMKT []]"

text \<open>
  The body of the loop over the fills: \<open>None\<close> is \<open>continue\<close>, \<open>Some row\<close> is the row that
  is appended.
\<close>

definition build_row :: "message pydict \<Rightarrow> message \<Rightarrow> pystr list option" where
  "build_row orders_by_id ex =
     (case resolve_clid ex of
        None \<Rightarrow> None
      | Some clid \<Rightarrow>
          if clid = [] then None
          else
            (case map_of orders_by_id clid of
               None \<Rightarrow> None
             | Some order \<Rightarrow>
                 if order = [] then None
                 else
                   (case map_of ex TAG_ORDTYPE of
                      None \<Rightarrow> Some (compose_row order ex)
                    | Some ordtype_exec \<Rightarrow>
                        if ordtype_exec \<noteq> ORDTYPE_LIMIT then None
                        else Some (compose_row order ex))))"

fun build_rows :: "message pydict \<Rightarrow> message list \<Rightarrow> pystr list list" where
  "build_rows orders_by_id [] = []"
| "build_rows orders_by_id (ex # fills) =
     (case build_row orders_by_id ex of
        None \<Rightarrow> build_rows orders_by_id fills
      | Some row \<Rightarrow> row # build_rows orders_by_id fills)"

subsection \<open>main, between reading the lines and writing the rows\<close>

definition convert :: "pystr list \<Rightarrow> pystr list list" where
  "convert lines = (case load_orders_and_fills lines of (orders_by_id, fills) \<Rightarrow>
                      build_rows orders_by_id fills)"

section \<open>Classification of a tokenized message\<close>

text \<open>
  The two guards of \<open>load_orders_and_fills\<close>, named: a message is stored as an order
  under \<open>c\<close> when its type is \<open>D\<close>, its tag 11 is \<open>c\<close> and not empty, and its tag 40 is
  \<open>2\<close>; it is appended to the fills when its type is \<open>8\<close> and its tags 150 and 39 are
  both \<open>2\<close>.
\<close>

definition qualifying_order :: "pystr \<Rightarrow> message \<Rightarrow> bool" where
  "qualifying_order c msg \<longleftrightarrow>
     map_of msg TAG_MSGTYPE = Some MSG_NEW_ORDER_SINGLE \<and> map_of msg TAG_CLORDID = Some c \<and>
     c \<noteq> [] \<and> map_of msg TAG_ORDTYPE = Some ORDTYPE_LIMIT"

definition qualifying_fill :: "message \<Rightarrow> bool" where
  "qualifying_fill msg \<longleftrightarrow>
     map_of msg TAG_MSGTYPE = Some MSG_EXEC_REPORT \<and>
     map_of msg TAG_EXECTYPE = Some EXECTYPE_FILL \<and>
     map_of msg TAG_ORDSTATUS = Some ORDSTATUS_FILLED"

text \<open>
  A message whose fields fill the timestamp and venue columns of a row: a new order with
  a non-empty tag 60, an execution report with non-empty tags 60 and 30.
\<close>

definition carries_times_and_venue :: "message \<Rightarrow> bool" where
  "carries_times_and_venue msg \<longleftrightarrow>
     (map_of msg TAG_MSGTYPE = Some MSG_NEW_ORDER_SINGLE \<longrightarrow>
        get_or msg TAG_TRANSACTTIME [] \<noteq> []) \<and>
     (map_of msg TAG_MSGTYPE = Some MSG_EXEC_REPORT \<longrightarrow>
        get_or msg TAG_TRANSACTTIME [] \<noteq> [] \<and> get_or msg TAG_LASTMKT [] \<noteq> [])"

section \<open>Renderings of a logical message\<close>

text \<open>
  The three renderings of a list of tag and value pairs as one line: each pair as
  \<open>tag=value\<close>, the fields joined by a separator (\<open>sep.join(fields)\<close>).
\<close>

fun join :: "pystr \<Rightarrow> pystr list \<Rightarrow> pystr" where
  "join sep [] = []"
| "join sep [p] = p"
| "join sep (p # q # ps) = p @ sep @ join sep (q # ps)"

definition field_text :: "pystr \<times> pystr \<Rightarrow> pystr" where
  "field_text kv = fst kv @ EQ # snd kv"

definition render :: "pystr \<Rightarrow> (pystr \<times> pystr) list \<Rightarrow> pystr" where
  "render sep kvs = join sep (map field_text kvs)"

definition clean_tag :: "pystr \<Rightarrow> bool" where
  "clean_tag k \<longleftrightarrow> (\<forall>c \<in> set k. c \<noteq> SOH \<and> c \<noteq> PIPE \<and> \<not> isspace c \<and> c \<noteq> EQ)"

definition clean_value :: "pystr \<Rightarrow> bool" where
  "clean_value v \<longleftrightarrow> (\<forall>c \<in> set v. c \<noteq> SOH \<and> c \<noteq> PIPE \<and> \<not> isspace c)"

text \<open>The dictionary that assigning the pairs one after the other builds.\<close>

definition dict_of :: "(pystr \<times> pystr) list \<Rightarrow> message" where
  "dict_of kvs = foldl (\<lambda>msg kv. AList.update (fst kv) (snd kv) msg) [] kvs"

section \<open>The scenario of the specification\<close>

definition order_line :: pystr where
  "order_line =
     str ''35=D'' @ SOH # str ''11=A1'' @ SOH # str ''40=2'' @ SOH #
     str ''60=20250910-08:00:00.377'' @ SOH # str ''55=XYZ'' @ SOH # str ''54=1'' @ SOH #
     str ''38=100'' @ SOH # str ''44=10.50''"

text \<open>The fill line with the separator \<open>SOH\<close> before the field \<open>6=10.40\<close>.\<close>

definition fill_line :: pystr where
  "fill_line =
     str ''35=8'' @ SOH # str ''41=A1'' @ SOH # str ''6=10.40'' @ SOH # str ''30=NASDAQ'' @ SOH #
     str ''150=2'' @ SOH # str ''39=2'' @ SOH # str ''60=20250910-08:00:00.500''"

text \<open>The fill line as the scenario writes it: the character of code 6 follows \<open>41=A1\<close>,
  then \<open>=10.40\<close>.\<close>

definition fill_line_as_written :: pystr where
  "fill_line_as_written =
     str ''35=8'' @ SOH # str ''41=A1'' @ 6 # str ''=10.40'' @ SOH # str ''30=NASDAQ'' @ SOH #
     str ''150=2'' @ SOH # str ''39=2'' @ SOH # str ''60=20250910-08:00:00.500''"

definition scenario_row :: "pystr list" where
  "scenario_row =
     [str ''A1'', str ''20250910-08:00:00.377'', str ''20250910-08:00:00.500'', str ''XYZ'',
      str ''1'', str ''100'', str ''10.50'', str ''10.40'', str ''NASDAQ'']"

section \<open>Evaluation and basic facts\<close>

lemmas tag_defs =
  TAG_MSGTYPE_def TAG_CLORDID_def TAG_ORIGCLORDID_def TAG_TRANSACTTIME_def TAG_SYMBOL_def
  TAG_SIDE_def TAG_ORDERQTY_def TAG_ORDTYPE_def TAG_PRICE_def TAG_EXECTYPE_def
  TAG_ORDSTATUS_def TAG_AVGPX_def TAG_LASTMKT_def

lemmas value_defs =
  MSG_NEW_ORDER_SINGLE_def MSG_EXEC_REPORT_def EXECTYPE_FILL_def ORDSTATUS_FILLED_def
  ORDTYPE_LIMIT_def

lemmas eval_defs =
  str_def SOH_def PIPE_def EQ_def isspace_def strip_def split_eq_def get_or_def or_str_def
  tag_defs value_defs parse_fix_line_def stored_order_def process_line_def
  load_orders_and_fills_def resolve_clid_def compose_row_def build_row_def convert_def

subsection \<open>Tags, stored orders\<close>

lemma msgtypes_differ: "MSG_NEW_ORDER_SINGLE \<noteq> MSG_EXEC_REPORT"
  by (simp add: value_defs str_def)

lemma stored_order_fields:
  "map_of (stored_order c t m) TAG_CLORDID = Some c"
  "map_of (stored_order c t m) TAG_ORDTYPE = Some t"
  "get_or (stored_order c t m) TAG_CLORDID [] = c"
  "get_or (stored_order c t m) TAG_TRANSACTTIME [] = get_or m TAG_TRANSACTTIME []"
  "get_or (stored_order c t m) TAG_SYMBOL [] = get_or m TAG_SYMBOL []"
  "get_or (stored_order c t m) TAG_SIDE [] = get_or m TAG_SIDE []"
  "get_or (stored_order c t m) TAG_ORDERQTY [] = get_or m TAG_ORDERQTY []"
  "get_or (stored_order c t m) TAG_PRICE [] = get_or m TAG_PRICE []"
  by (simp_all add: stored_order_def get_or_def tag_defs str_def)

lemma stored_order_nonempty: "stored_order c t m \<noteq> []"
  by (simp add: stored_order_def)

lemma compose_stored_order:
  "compose_row (stored_order c t m) ex =
     [c, get_or m TAG_TRANSACTTIME [], get_or ex TAG_TRANSACTTIME [],
      or_str (get_or m TAG_SYMBOL []) (get_or ex TAG_SYMBOL []),
      or_str (get_or m TAG_SIDE []) (get_or ex TAG_SIDE []),
      or_str (get_or m TAG_ORDERQTY []) (get_or ex TAG_ORDERQTY []),
      get_or m TAG_PRICE [], get_or ex TAG_AVGPX [], get_or ex TAG_LASTMKT []]"
  by (simp add: compose_row_def stored_order_fields)

subsection \<open>One line of the loader\<close>

lemma process_order:
  "qualifying_order c (parse_fix_line l) \<Longrightarrow>
   process_line (os, fs) l =
     (AList.update c (stored_order c ORDTYPE_LIMIT (parse_fix_line l)) os, fs)"
  by (auto simp: qualifying_order_def process_line_def Let_def)

lemma process_fill:
  "qualifying_fill (parse_fix_line l) \<Longrightarrow>
   process_line (os, fs) l = (os, fs @ [parse_fix_line l])"
  using msgtypes_differ by (auto simp: qualifying_fill_def process_line_def Let_def)

lemma process_other:
  "\<forall>c. \<not> qualifying_order c (parse_fix_line l) \<Longrightarrow> \<not> qualifying_fill (parse_fix_line l) \<Longrightarrow>
   process_line st l = st"
  by (cases st)
    (auto simp: qualifying_order_def qualifying_fill_def process_line_def Let_def
      split: option.splits)

lemma order_not_fill: "qualifying_order c m \<Longrightarrow> \<not> qualifying_fill m"
  using msgtypes_differ by (auto simp: qualifying_order_def qualifying_fill_def)

lemma order_id_unique: "qualifying_order c m \<Longrightarrow> qualifying_order c' m \<Longrightarrow> c' = c"
  by (auto simp: qualifying_order_def)

lemma process_cases:
  obtains (order) c where "qualifying_order c (parse_fix_line l)"
    "\<And>os fs. process_line (os, fs) l =
       (AList.update c (stored_order c ORDTYPE_LIMIT (parse_fix_line l)) os, fs)"
  | (fill) "qualifying_fill (parse_fix_line l)" "\<forall>c. \<not> qualifying_order c (parse_fix_line l)"
    "\<And>os fs. process_line (os, fs) l = (os, fs @ [parse_fix_line l])"
  | (other) "\<not> qualifying_fill (parse_fix_line l)" "\<forall>c. \<not> qualifying_order c (parse_fix_line l)"
    "\<And>st. process_line st l = st"
proof (cases "\<exists>c. qualifying_order c (parse_fix_line l)")
  case True
  then obtain c where "qualifying_order c (parse_fix_line l)" by blast
  then show ?thesis using order process_order by blast
next
  case no_order: False
  show ?thesis
  proof (cases "qualifying_fill (parse_fix_line l)")
    case True
    then show ?thesis using no_order fill process_fill by blast
  next
    case False
    then show ?thesis using no_order other process_other by blast
  qed
qed

lemma skipped_line:
  assumes "\<And>st. process_line st l = st"
  shows "load_orders_and_fills (pre @ l # post) = load_orders_and_fills (pre @ post)"
  by (simp add: load_orders_and_fills_def assms)

subsection \<open>The whole loop of the loader\<close>

lemma loaded_fills:
  "snd (foldl process_line (os, fs) lines) =
     fs @ map parse_fix_line (filter (\<lambda>l. qualifying_fill (parse_fix_line l)) lines)"
proof (induction lines arbitrary: os fs)
  case Nil
  show ?case by simp
next
  case (Cons l lines)
  show ?case
  proof (cases l rule: process_cases)
    case (order c)
    then show ?thesis using Cons.IH order_not_fill by auto
  next
    case fill
    then show ?thesis using Cons.IH by auto
  next
    case other
    then show ?thesis using Cons.IH by auto
  qed
qed

lemma loaded_orders:
  "map_of (fst (foldl process_line (os, fs) lines)) c =
     (case find (\<lambda>l. qualifying_order c (parse_fix_line l)) (rev lines) of
        None \<Rightarrow> map_of os c
      | Some l \<Rightarrow> Some (stored_order c ORDTYPE_LIMIT (parse_fix_line l)))"
proof (induction lines rule: rev_induct)
  case Nil
  show ?case by simp
next
  case (snoc l lines)
  obtain os' fs' where st: "foldl process_line (os, fs) lines = (os', fs')"
    by (cases "foldl process_line (os, fs) lines")
  show ?case
  proof (cases l rule: process_cases)
    case (order c')
    show ?thesis
    proof (cases "c' = c")
      case True
      then show ?thesis using order st by (simp add: update_conv')
    next
      case False
      then have "\<not> qualifying_order c (parse_fix_line l)"
        using order(1) order_id_unique by blast
      then show ?thesis using order st snoc.IH False by (simp add: update_conv')
    qed
  next
    case fill
    then show ?thesis using st snoc.IH by simp
  next
    case other
    then show ?thesis using st snoc.IH by simp
  qed
qed

lemma find_SomeD: "find P xs = Some x \<Longrightarrow> x \<in> set xs \<and> P x"
  by (induction xs) (auto split: if_splits)

lemma find_app:
  "find P (xs @ ys) = (case find P xs of None \<Rightarrow> find P ys | Some x \<Rightarrow> Some x)"
  by (induction xs) auto

lemma fills_of_input:
  "snd (load_orders_and_fills lines) =
     map parse_fix_line (filter (\<lambda>l. qualifying_fill (parse_fix_line l)) lines)"
  by (simp add: load_orders_and_fills_def loaded_fills)

lemma store_lookup:
  "map_of (fst (load_orders_and_fills lines)) c =
     (case find (\<lambda>l. qualifying_order c (parse_fix_line l)) (rev lines) of
        None \<Rightarrow> None
      | Some l \<Rightarrow> Some (stored_order c ORDTYPE_LIMIT (parse_fix_line l)))"
  by (simp add: load_orders_and_fills_def loaded_orders split: option.splits)

lemma store_entry:
  assumes "map_of (fst (load_orders_and_fills lines)) c = Some order"
  shows "\<exists>l \<in> set lines. qualifying_order c (parse_fix_line l) \<and>
           order = stored_order c ORDTYPE_LIMIT (parse_fix_line l)"
proof -
  from assms obtain l where
    f: "find (\<lambda>l. qualifying_order c (parse_fix_line l)) (rev lines) = Some l" and
    o: "order = stored_order c ORDTYPE_LIMIT (parse_fix_line l)"
    by (auto simp: store_lookup split: option.splits)
  from f have "l \<in> set lines" "qualifying_order c (parse_fix_line l)"
    using find_SomeD [OF f] by auto
  with o show ?thesis by blast
qed

lemma store_last_order:
  assumes "qualifying_order c (parse_fix_line l)"
    and "\<forall>l' \<in> set post. \<not> qualifying_order c (parse_fix_line l')"
  shows "map_of (fst (load_orders_and_fills (pre @ l # post))) c =
           Some (stored_order c ORDTYPE_LIMIT (parse_fix_line l))"
proof -
  have "find (\<lambda>l. qualifying_order c (parse_fix_line l)) (rev post) = None"
    using assms(2) by (simp add: find_None_iff)
  then have "find (\<lambda>l. qualifying_order c (parse_fix_line l)) (rev (pre @ l # post)) = Some l"
    using assms(1) by (simp add: find_app)
  then show ?thesis by (simp add: store_lookup)
qed

lemma store_has_order:
  assumes "l \<in> set lines" and "qualifying_order c (parse_fix_line l)"
  shows "\<exists>order. map_of (fst (load_orders_and_fills lines)) c = Some order"
proof -
  have "find (\<lambda>l. qualifying_order c (parse_fix_line l)) (rev lines) \<noteq> None"
    using assms by (auto simp: find_None_iff)
  then show ?thesis by (auto simp: store_lookup split: option.splits)
qed

lemma store_without_order:
  assumes "\<forall>l \<in> set lines. \<not> qualifying_order c (parse_fix_line l)"
  shows "map_of (fst (load_orders_and_fills lines)) c = None"
proof -
  have "find (\<lambda>l. qualifying_order c (parse_fix_line l)) (rev lines) = None"
    using assms by (simp add: find_None_iff)
  then show ?thesis by (simp add: store_lookup)
qed

lemma set_update_subset: "set (AList.update k v al) \<subseteq> insert (k, v) (set al)"
  by (induction al) auto

lemma store_entries:
  "(k, order) \<in> set (fst (foldl process_line (os, fs) lines)) \<Longrightarrow>
   (k, order) \<in> set os \<or>
   (\<exists>l \<in> set lines. qualifying_order k (parse_fix_line l) \<and>
      order = stored_order k ORDTYPE_LIMIT (parse_fix_line l))"
proof (induction lines arbitrary: k order rule: rev_induct)
  case Nil
  then show ?case by simp
next
  case (snoc l lines)
  obtain os' fs' where st: "foldl process_line (os, fs) lines = (os', fs')"
    by (cases "foldl process_line (os, fs) lines")
  show ?case
  proof (cases l rule: process_cases)
    case (order c)
    have "(k, order) \<in> insert (c, stored_order c ORDTYPE_LIMIT (parse_fix_line l)) (set os')"
      using snoc.prems st order(2) set_update_subset by fastforce
    then show ?thesis using snoc.IH st order(1) by auto
  next
    case fill
    then show ?thesis using snoc st by auto
  next
    case other
    then show ?thesis using snoc st by auto
  qed
qed

subsection \<open>The loop of build\_rows\<close>

lemma build_rows_mem:
  "row \<in> set (build_rows os fs) \<longleftrightarrow> (\<exists>ex \<in> set fs. build_row os ex = Some row)"
  by (induction fs) (auto split: option.splits)

lemma build_row_Some:
  assumes "build_row os ex = Some row"
  shows "\<exists>c order. resolve_clid ex = Some c \<and> c \<noteq> [] \<and> map_of os c = Some order \<and>
           order \<noteq> [] \<and> row = compose_row order ex"
  using assms by (auto simp: build_row_def split: option.splits if_splits)

lemma build_row_matched:
  assumes "resolve_clid ex = Some c" and "c \<noteq> []" and "map_of os c = Some order"
    and "order \<noteq> []"
  shows "build_row os ex =
           (if map_of ex TAG_ORDTYPE = None \<or> map_of ex TAG_ORDTYPE = Some ORDTYPE_LIMIT
            then Some (compose_row order ex) else None)"
  using assms by (auto simp: build_row_def split: option.splits)

lemma build_row_unresolved:
  "resolve_clid ex = None \<or> resolve_clid ex = Some [] \<Longrightarrow> build_row os ex = None"
  by (auto simp: build_row_def)

lemma build_row_unmatched:
  "resolve_clid ex = Some c \<Longrightarrow> map_of os c = None \<Longrightarrow> build_row os ex = None"
  by (auto simp: build_row_def)

lemma convert_rows:
  "row \<in> set (convert lines) \<longleftrightarrow>
     (\<exists>l \<in> set lines. qualifying_fill (parse_fix_line l) \<and>
        build_row (fst (load_orders_and_fills lines)) (parse_fix_line l) = Some row)"
  by (cases "load_orders_and_fills lines")
    (use fills_of_input [of lines] in \<open>auto simp: convert_def build_rows_mem\<close>)

subsection \<open>Splitting a joined line\<close>

lemma split_sep_plain: "c \<notin> set p \<Longrightarrow> split_sep c p = [p]"
  by (induction p) auto

lemma split_sep_first: "c \<notin> set p \<Longrightarrow> split_sep c (p @ c # rest) = p # split_sep c rest"
  by (induction p) auto

lemma split_sep_join:
  "fs \<noteq> [] \<Longrightarrow> \<forall>f \<in> set fs. c \<notin> set f \<Longrightarrow> split_sep c (join [c] fs) = fs"
proof (induction "[c]" fs rule: join.induct)
  case 1
  then show ?case by simp
next
  case (2 p)
  then show ?case by (simp add: split_sep_plain)
next
  case (3 p q ps)
  then show ?case by (simp add: split_sep_first)
qed

lemma re_split_ws_plain: "\<forall>x \<in> set p. \<not> isspace x \<Longrightarrow> re_split_ws p = [p]"
  by (induction p) auto

lemma re_split_ws_first:
  assumes "\<forall>x \<in> set p. \<not> isspace x" and "ws \<noteq> []" and "\<forall>x \<in> set ws. isspace x"
    and "q \<noteq> []" and "\<not> isspace (hd q)"
  shows "re_split_ws (p @ ws @ q) = p # re_split_ws q"
  using assms(1)
proof (induction p)
  case Nil
  obtain w ws' where ws: "ws = w # ws'" using assms(2) by (cases ws) auto
  have "dropWhile isspace (ws' @ q) = dropWhile isspace q"
    using assms(3) ws by (simp add: dropWhile_append2)
  also have "\<dots> = q" using assms(4,5) by (cases q) auto
  finally show ?case using assms(3) ws by simp
next
  case (Cons x p)
  then show ?case by simp
qed

lemma join_nonempty: "fs \<noteq> [] \<Longrightarrow> \<forall>f \<in> set fs. f \<noteq> [] \<Longrightarrow> join sep fs \<noteq> []"
  by (induction sep fs rule: join.induct) auto

lemma hd_join: "fs \<noteq> [] \<Longrightarrow> hd fs \<noteq> [] \<Longrightarrow> hd (join sep fs) = hd (hd fs)"
  by (induction sep fs rule: join.induct) auto

lemma last_join:
  "fs \<noteq> [] \<Longrightarrow> \<forall>f \<in> set fs. f \<noteq> [] \<Longrightarrow> last (join sep fs) = last (last fs)"
proof (induction sep fs rule: join.induct)
  case (3 sep p q ps)
  then have "join sep (q # ps) \<noteq> []" by (simp add: join_nonempty)
  with 3 show ?case by simp
qed simp_all

lemma set_join_subset: "set (join sep fs) \<subseteq> set sep \<union> \<Union> (set ` set fs)"
  by (induction sep fs rule: join.induct) auto

lemma join_single_or_sep:
  "fs \<noteq> [] \<Longrightarrow> (\<exists>f. fs = [f]) \<or> set sep \<subseteq> set (join sep fs)"
  by (induction sep fs rule: join.induct) auto

lemma re_split_ws_join:
  "sep \<noteq> [] \<Longrightarrow> \<forall>x \<in> set sep. isspace x \<Longrightarrow> fs \<noteq> [] \<Longrightarrow>
   \<forall>f \<in> set fs. f \<noteq> [] \<and> (\<forall>x \<in> set f. \<not> isspace x) \<Longrightarrow>
   re_split_ws (join sep fs) = fs"
proof (induction sep fs rule: join.induct)
  case (1 sep)
  then show ?case by simp
next
  case (2 sep p)
  then show ?case by (simp add: re_split_ws_plain)
next
  case (3 sep p q ps)
  have ne: "join sep (q # ps) \<noteq> []"
    using 3 by (simp add: join_nonempty)
  have "hd (join sep (q # ps)) = hd q"
    using 3 by (simp add: hd_join)
  then have nsp: "\<not> isspace (hd (join sep (q # ps)))"
    using 3 by (cases q) auto
  have p: "\<forall>x \<in> set p. \<not> isspace x" using 3 by simp
  have "re_split_ws (p @ sep @ join sep (q # ps)) = p # re_split_ws (join sep (q # ps))"
    using re_split_ws_first [OF p "3.prems"(1,2) ne nsp] .
  then show ?case using 3 by simp
qed

lemma strip_trimmed:
  assumes "s \<noteq> []" and "\<not> isspace (hd s)" and "\<not> isspace (last s)"
  shows "strip s = s"
proof -
  have "dropWhile isspace s = s" using assms(1,2) by (cases s) auto
  moreover have "dropWhile isspace (rev s) = rev s"
    using assms(1,3) by (cases "rev s") (auto simp: last_rev [symmetric] simp del: last_rev)
  ultimately show ?thesis by (simp add: strip_def)
qed

lemma split_eq_field: "EQ \<notin> set k \<Longrightarrow> split_eq (k @ EQ # v) = (k, v)"
  by (induction k) (auto simp: split_eq_def)

lemma add_fields_rendered:
  "\<forall>kv \<in> set kvs. EQ \<notin> set (fst kv) \<Longrightarrow>
   add_fields msg (map field_text kvs) =
     foldl (\<lambda>msg kv. AList.update (fst kv) (snd kv) msg) msg kvs"
  by (induction kvs arbitrary: msg) (auto simp: field_text_def split_eq_field)

subsection \<open>Tokenizing a rendered message\<close>

lemma not_space_separators: "\<not> isspace SOH" "\<not> isspace PIPE" "\<not> isspace EQ" "SOH \<noteq> PIPE"
  by (simp_all add: isspace_def SOH_def PIPE_def EQ_def)

lemma parse_joined_fields:
  assumes "\<forall>f \<in> set fs. f \<noteq> [] \<and> SOH \<notin> set f \<and> PIPE \<notin> set f \<and> (\<forall>x \<in> set f. \<not> isspace x)"
    and "sep = [SOH] \<or> sep = [PIPE] \<or> (sep \<noteq> [] \<and> (\<forall>x \<in> set sep. isspace x))"
  shows "parse_fix_line (join sep fs) = add_fields [] fs"
proof (cases "fs = []")
  case True
  then show ?thesis by (simp add: parse_fix_line_def strip_def)
next
  case False
  let ?line = "join sep fs"
  have nonempty: "\<forall>f \<in> set fs. f \<noteq> []" using assms(1) by blast
  have ne: "?line \<noteq> []" using False nonempty by (rule join_nonempty)
  have "hd fs \<in> set fs" "last fs \<in> set fs" using False by simp_all
  then have ends: "hd fs \<noteq> []" "\<not> isspace (hd (hd fs))" "last fs \<noteq> []"
    "\<not> isspace (last (last fs))"
    using assms(1) by (auto simp: hd_in_set last_in_set)
  have "hd ?line = hd (hd fs)" using False ends(1) by (rule hd_join)
  moreover have "last ?line = last (last fs)" using False nonempty by (rule last_join)
  ultimately have strip: "strip ?line = ?line"
    using ne ends strip_trimmed by simp
  have single: "(\<exists>f. fs = [f]) \<or> set sep \<subseteq> set ?line"
    using False by (rule join_single_or_sep)
  have chars: "set ?line \<subseteq> set sep \<union> \<Union> (set ` set fs)" by (rule set_join_subset)
  have fields: "(if SOH \<in> set ?line then split_sep SOH ?line
                 else if PIPE \<in> set ?line then split_sep PIPE ?line
                 else re_split_ws ?line) = fs"
  proof -
    consider (soh) "sep = [SOH]" | (pipe) "sep = [PIPE]"
      | (ws) "sep \<noteq> []" "\<forall>x \<in> set sep. isspace x"
      using assms(2) by blast
    then show ?thesis
    proof cases
      case soh
      have split: "split_sep SOH ?line = fs"
        using False assms(1) unfolding soh by (simp add: split_sep_join)
      show ?thesis
      proof (cases "SOH \<in> set ?line")
        case True
        then show ?thesis using split by simp
      next
        case no_soh: False
        then obtain f where f: "fs = [f]" using single soh by auto
        then have "PIPE \<notin> set f" "\<forall>x \<in> set f. \<not> isspace x" using assms(1) by simp_all
        then show ?thesis using no_soh f by (simp add: re_split_ws_plain)
      qed
    next
      case pipe
      have no_soh: "SOH \<notin> set ?line"
        using chars assms(1) not_space_separators(4) unfolding pipe by auto
      have split: "split_sep PIPE ?line = fs"
        using False assms(1) unfolding pipe by (simp add: split_sep_join)
      show ?thesis
      proof (cases "PIPE \<in> set ?line")
        case True
        then show ?thesis using no_soh split by simp
      next
        case no_pipe: False
        then obtain f where f: "fs = [f]" using single pipe by auto
        then have "\<forall>x \<in> set f. \<not> isspace x" using assms(1) by simp
        then show ?thesis using no_soh no_pipe f by (simp add: re_split_ws_plain)
      qed
    next
      case ws
      have no_soh: "SOH \<notin> set ?line"
        using chars assms(1) ws(2) not_space_separators(1) by auto
      have no_pipe: "PIPE \<notin> set ?line"
        using chars assms(1) ws(2) not_space_separators(2) by auto
      have "re_split_ws ?line = fs"
        using ws False assms(1) by (simp add: re_split_ws_join)
      then show ?thesis using no_soh no_pipe by simp
    qed
  qed
  show ?thesis
    using ne fields by (simp add: parse_fix_line_def strip Let_def)
qed

lemma clean_field:
  assumes "clean_tag (fst kv)" and "clean_value (snd kv)"
  shows "field_text kv \<noteq> [] \<and> SOH \<notin> set (field_text kv) \<and> PIPE \<notin> set (field_text kv) \<and>
         (\<forall>x \<in> set (field_text kv). \<not> isspace x)"
proof -
  have "EQ \<noteq> SOH" "EQ \<noteq> PIPE" by (simp_all add: EQ_def SOH_def PIPE_def)
  then show ?thesis
    using assms not_space_separators(3)
    by (auto simp: field_text_def clean_tag_def clean_value_def)
qed

lemma parse_rendered:
  assumes "\<forall>kv \<in> set kvs. clean_tag (fst kv) \<and> clean_value (snd kv)"
    and "sep = [SOH] \<or> sep = [PIPE] \<or> (sep \<noteq> [] \<and> (\<forall>x \<in> set sep. isspace x))"
  shows "parse_fix_line (render sep kvs) = dict_of kvs"
proof -
  have "\<forall>f \<in> set (map field_text kvs).
      f \<noteq> [] \<and> SOH \<notin> set f \<and> PIPE \<notin> set f \<and> (\<forall>x \<in> set f. \<not> isspace x)"
    using assms(1) clean_field by auto
  then have "parse_fix_line (render sep kvs) = add_fields [] (map field_text kvs)"
    unfolding render_def using assms(2) by (rule parse_joined_fields)
  moreover have "\<forall>kv \<in> set kvs. EQ \<notin> set (fst kv)"
    using assms(1) by (auto simp: clean_tag_def)
  ultimately show ?thesis by (simp add: add_fields_rendered dict_of_def)
qed

lemma map_of_assigned:
  "map_of (foldl (\<lambda>msg kv. AList.update (fst kv) (snd kv) msg) msg kvs) k =
     (case map_of (rev kvs) k of None \<Rightarrow> map_of msg k | Some v \<Rightarrow> Some v)"
  by (induction kvs rule: rev_induct) (auto simp: update_conv')

lemma map_of_rev_distinct: "distinct (map fst kvs) \<Longrightarrow> map_of (rev kvs) k = map_of kvs k"
proof (induction kvs)
  case Nil
  show ?case by simp
next
  case (Cons kv kvs)
  have absent: "map_of (rev kvs) (fst kv) = None"
    using Cons.prems by (simp add: map_of_eq_None_iff)
  show ?case
  proof (cases "k = fst kv")
    case True
    then show ?thesis using absent by (cases kv) (simp add: map_add_def)
  next
    case False
    then show ?thesis using Cons by (cases kv) (simp add: map_add_def split: option.splits)
  qed
qed

lemma map_of_dict_of: "distinct (map fst kvs) \<Longrightarrow> map_of (dict_of kvs) = map_of kvs"
proof
  fix k
  assume d: "distinct (map fst kvs)"
  have "map_of (rev kvs) k = map_of kvs k"
    using d by (rule map_of_rev_distinct)
  then show "map_of (dict_of kvs) k = map_of kvs k"
    by (simp add: dict_of_def map_of_assigned split: option.splits)
qed

section \<open>The claims\<close>

text \<open>
  C1, as stated, fails: an order line without tag 60 and a fill line without tags 60 and
  30 give a row whose two timestamps and venue are the empty string.
\<close>

theorem c1_counterexample:
  "convert [str ''35=D|11=A1|40=2'', str ''35=8|41=A1|150=2|39=2''] =
     [[str ''A1'', [], [], [], [], [], [], [], []]]"
  by (simp add: eval_defs)

text \<open>
  C1, amended. Every emitted row has nine columns; its order timestamp is tag 60 of a
  qualifying order line, its execution timestamp and its venue are tags 60 and 30 of a
  qualifying fill line, each the empty string when the tag is absent. So when every
  new-order line of the input carries a non-empty tag 60 and every execution-report line
  non-empty tags 60 and 30, the three columns of every emitted row are non-empty.
\<close>

theorem c1_rows_with_times_and_venue:
  assumes "row \<in> set (convert lines)"
  shows "length row = 9 \<and>
         (\<exists>ol \<in> set lines. \<exists>fl \<in> set lines.
            qualifying_order (row ! 0) (parse_fix_line ol) \<and> qualifying_fill (parse_fix_line fl) \<and>
            row ! 1 = get_or (parse_fix_line ol) TAG_TRANSACTTIME [] \<and>
            row ! 2 = get_or (parse_fix_line fl) TAG_TRANSACTTIME [] \<and>
            row ! 8 = get_or (parse_fix_line fl) TAG_LASTMKT []) \<and>
         ((\<forall>l \<in> set lines. carries_times_and_venue (parse_fix_line l)) \<longrightarrow>
            row ! 1 \<noteq> [] \<and> row ! 2 \<noteq> [] \<and> row ! 8 \<noteq> [])"
proof -
  from assms obtain fl where fl: "fl \<in> set lines" "qualifying_fill (parse_fix_line fl)"
    and b: "build_row (fst (load_orders_and_fills lines)) (parse_fix_line fl) = Some row"
    by (auto simp: convert_rows)
  from build_row_Some [OF b] obtain c order where
    o: "map_of (fst (load_orders_and_fills lines)) c = Some order" and
    r: "row = compose_row order (parse_fix_line fl)"
    by blast
  from store_entry [OF o] obtain ol where ol: "ol \<in> set lines"
    "qualifying_order c (parse_fix_line ol)"
    "order = stored_order c ORDTYPE_LIMIT (parse_fix_line ol)"
    by blast
  have row: "row = [c, get_or (parse_fix_line ol) TAG_TRANSACTTIME [],
      get_or (parse_fix_line fl) TAG_TRANSACTTIME [],
      or_str (get_or (parse_fix_line ol) TAG_SYMBOL []) (get_or (parse_fix_line fl) TAG_SYMBOL []),
      or_str (get_or (parse_fix_line ol) TAG_SIDE []) (get_or (parse_fix_line fl) TAG_SIDE []),
      or_str (get_or (parse_fix_line ol) TAG_ORDERQTY [])
        (get_or (parse_fix_line fl) TAG_ORDERQTY []),
      get_or (parse_fix_line ol) TAG_PRICE [], get_or (parse_fix_line fl) TAG_AVGPX [],
      get_or (parse_fix_line fl) TAG_LASTMKT []]"
    using r ol(3) by (simp add: compose_stored_order)
  have len: "length row = 9" by (simp add: row)
  have cols: "row ! 0 = c" "row ! 1 = get_or (parse_fix_line ol) TAG_TRANSACTTIME []"
    "row ! 2 = get_or (parse_fix_line fl) TAG_TRANSACTTIME []"
    "row ! 8 = get_or (parse_fix_line fl) TAG_LASTMKT []"
    by (simp_all add: row)
  have prov: "\<exists>ol \<in> set lines. \<exists>fl \<in> set lines.
      qualifying_order (row ! 0) (parse_fix_line ol) \<and> qualifying_fill (parse_fix_line fl) \<and>
      row ! 1 = get_or (parse_fix_line ol) TAG_TRANSACTTIME [] \<and>
      row ! 2 = get_or (parse_fix_line fl) TAG_TRANSACTTIME [] \<and>
      row ! 8 = get_or (parse_fix_line fl) TAG_LASTMKT []"
    using ol(1,2) fl cols by blast
  have "row ! 1 \<noteq> [] \<and> row ! 2 \<noteq> [] \<and> row ! 8 \<noteq> []"
    if all: "\<forall>l \<in> set lines. carries_times_and_venue (parse_fix_line l)"
  proof -
    from all ol(1) have "carries_times_and_venue (parse_fix_line ol)" by blast
    with ol(2) have "get_or (parse_fix_line ol) TAG_TRANSACTTIME [] \<noteq> []"
      by (simp add: carries_times_and_venue_def qualifying_order_def)
    moreover from all fl(1) have "carries_times_and_venue (parse_fix_line fl)" by blast
    with fl(2) have "get_or (parse_fix_line fl) TAG_TRANSACTTIME [] \<noteq> [] \<and>
        get_or (parse_fix_line fl) TAG_LASTMKT [] \<noteq> []"
      by (simp add: carries_times_and_venue_def qualifying_fill_def)
    ultimately show ?thesis using cols by simp
  qed
  with len prov show ?thesis by blast
qed

theorem c1_witness:
  "scenario_row \<in> set (convert [order_line, fill_line]) \<and>
   carries_times_and_venue (parse_fix_line order_line) \<and>
   carries_times_and_venue (parse_fix_line fill_line) \<and>
   length scenario_row = 9 \<and> scenario_row ! 1 \<noteq> [] \<and> scenario_row ! 2 \<noteq> [] \<and>
   scenario_row ! 8 \<noteq> []"
proof -
  have m: "scenario_row \<in> set (convert [order_line, fill_line])"
    by (simp add: eval_defs order_line_def fill_line_def scenario_row_def)
  have c: "carries_times_and_venue (parse_fix_line order_line)"
    "carries_times_and_venue (parse_fix_line fill_line)"
    by (simp_all add: carries_times_and_venue_def eval_defs order_line_def fill_line_def)
  then have "\<forall>l \<in> set [order_line, fill_line]. carries_times_and_venue (parse_fix_line l)"
    by simp
  with c1_rows_with_times_and_venue [OF m]
  have "length scenario_row = 9 \<and> scenario_row ! 1 \<noteq> [] \<and> scenario_row ! 2 \<noteq> [] \<and>
      scenario_row ! 8 \<noteq> []"
    by blast
  with m c show ?thesis by blast
qed

text \<open>
  C2, as stated, fails. In the fill line as it is written the character of code 6
  follows \<open>41=A1\<close>, so the token of tag 41 is \<open>41=A1\<close>, that character and \<open>=10.40\<close>;
  the identifier of the fill is not \<open>A1\<close> and no row is emitted, with or without the
  newline at the end of each line.
\<close>

theorem c2_counterexample:
  "map_of (parse_fix_line fill_line_as_written) TAG_ORIGCLORDID
     = Some (str ''A1'' @ 6 # str ''=10.40'') \<and>
   map_of (parse_fix_line fill_line_as_written) TAG_AVGPX = None \<and>
   convert [order_line, fill_line_as_written] = [] \<and>
   convert [order_line @ [10], fill_line_as_written @ [10]] = []"
  by (simp add: eval_defs order_line_def fill_line_as_written_def)

text \<open>
  C2, amended. With the separator \<open>SOH\<close> before the field \<open>6=10.40\<close> of the fill line,
  the two lines give exactly one row: \<open>A1\<close>, the two timestamps, \<open>XYZ\<close>, \<open>1\<close>, \<open>100\<close>,
  \<open>10.50\<close>, \<open>10.40\<close>, \<open>NASDAQ\<close>; with or without the newline at the end of each line.
\<close>

theorem c2_scenario:
  "convert [order_line, fill_line] = [scenario_row] \<and>
   convert [order_line @ [10], fill_line @ [10]] = [scenario_row]"
  by (simp add: eval_defs order_line_def fill_line_def scenario_row_def)

text \<open>
  C3, as stated, fails: the fill below carries tag 41, with the empty string as its
  value, and the identifier is nevertheless taken from tag 11, so that a row is emitted
  for the order \<open>A1\<close>.
\<close>

theorem c3_counterexample:
  "map_of (parse_fix_line (str ''35=8|41=|11=A1|150=2|39=2|60=T2|6=10.40|30=X'')) TAG_ORIGCLORDID
     = Some [] \<and>
   resolve_clid (parse_fix_line (str ''35=8|41=|11=A1|150=2|39=2|60=T2|6=10.40|30=X''))
     = Some (str ''A1'') \<and>
   convert [order_line, str ''35=8|41=|11=A1|150=2|39=2|60=T2|6=10.40|30=X''] =
     [[str ''A1'', str ''20250910-08:00:00.377'', str ''T2'', str ''XYZ'', str ''1'',
       str ''100'', str ''10.50'', str ''10.40'', str ''X'']]"
  by (simp add: eval_defs order_line_def)

text \<open>
  C3, amended. The identifier of a fill is the value of tag 41 when that tag is present
  and not empty, and otherwise what tag 11 gives. The order of the fill is looked up
  under that identifier and under no other: a fill whose tag 41 is \<open>v\<close>, not empty, is
  joined with the order stored under \<open>v\<close>, whatever its tag 11; a fill whose tag 41 is
  absent or empty and whose tag 11 is \<open>c\<close> is joined with the order stored under \<open>c\<close>;
  in both cases the row is emitted unless no order is stored there or the fill echoes
  an order type other than \<open>2\<close>. When each of the two tags is absent or empty the fill
  is dropped, whatever the orders stored: no row, and the loop goes on with the next
  fill.
\<close>

theorem c3_identifier_resolution:
  "resolve_clid ex =
     (if map_of ex TAG_ORIGCLORDID = None \<or> map_of ex TAG_ORIGCLORDID = Some []
      then map_of ex TAG_CLORDID else map_of ex TAG_ORIGCLORDID) \<and>
   build_row orders ex =
     (case (if map_of ex TAG_ORIGCLORDID = None \<or> map_of ex TAG_ORIGCLORDID = Some []
            then map_of ex TAG_CLORDID else map_of ex TAG_ORIGCLORDID) of
        None \<Rightarrow> None
      | Some c \<Rightarrow>
          (case map_of orders c of
             None \<Rightarrow> None
           | Some order \<Rightarrow>
               if c \<noteq> [] \<and> order \<noteq> [] \<and>
                  (map_of ex TAG_ORDTYPE = None \<or> map_of ex TAG_ORDTYPE = Some ORDTYPE_LIMIT)
               then Some (compose_row order ex) else None)) \<and>
   (\<forall>v order. map_of ex TAG_ORIGCLORDID = Some v \<and> v \<noteq> [] \<and>
      map_of orders v = Some order \<and> order \<noteq> [] \<and> map_of ex TAG_ORDTYPE = None \<longrightarrow>
        build_row orders ex = Some (compose_row order ex) \<and>
        build_rows orders (ex # fills) = compose_row order ex # build_rows orders fills) \<and>
   (\<forall>c order. (map_of ex TAG_ORIGCLORDID = None \<or> map_of ex TAG_ORIGCLORDID = Some []) \<and>
      map_of ex TAG_CLORDID = Some c \<and> c \<noteq> [] \<and>
      map_of orders c = Some order \<and> order \<noteq> [] \<and> map_of ex TAG_ORDTYPE = None \<longrightarrow>
        build_row orders ex = Some (compose_row order ex) \<and>
        build_rows orders (ex # fills) = compose_row order ex # build_rows orders fills) \<and>
   ((map_of ex TAG_ORIGCLORDID = None \<or> map_of ex TAG_ORIGCLORDID = Some []) \<and>
    (map_of ex TAG_CLORDID = None \<or> map_of ex TAG_CLORDID = Some []) \<longrightarrow>
      build_row orders ex = None \<and>
      build_rows orders (ex # fills) = build_rows orders fills)"
proof -
  let ?id = "if map_of ex TAG_ORIGCLORDID = None \<or> map_of ex TAG_ORIGCLORDID = Some []
      then map_of ex TAG_CLORDID else map_of ex TAG_ORIGCLORDID"
  have r: "resolve_clid ex = ?id"
    by (auto simp: resolve_clid_def split: option.splits)
  have b: "build_row orders ex =
     (case ?id of
        None \<Rightarrow> None
      | Some c \<Rightarrow>
          (case map_of orders c of
             None \<Rightarrow> None
           | Some order \<Rightarrow>
               if c \<noteq> [] \<and> order \<noteq> [] \<and>
                  (map_of ex TAG_ORDTYPE = None \<or> map_of ex TAG_ORDTYPE = Some ORDTYPE_LIMIT)
               then Some (compose_row order ex) else None))"
    unfolding r [symmetric] by (auto simp: build_row_def split: option.splits)
  have p: "build_row orders ex = Some (compose_row order ex) \<and>
      build_rows orders (ex # fills) = compose_row order ex # build_rows orders fills"
    if "map_of ex TAG_ORIGCLORDID = Some v \<and> v \<noteq> [] \<and>
      map_of orders v = Some order \<and> order \<noteq> [] \<and> map_of ex TAG_ORDTYPE = None"
    for v order
    using that by (simp add: b)
  have f: "build_row orders ex = Some (compose_row order ex) \<and>
      build_rows orders (ex # fills) = compose_row order ex # build_rows orders fills"
    if "(map_of ex TAG_ORIGCLORDID = None \<or> map_of ex TAG_ORIGCLORDID = Some []) \<and>
      map_of ex TAG_CLORDID = Some c \<and> c \<noteq> [] \<and>
      map_of orders c = Some order \<and> order \<noteq> [] \<and> map_of ex TAG_ORDTYPE = None"
    for c order
    using that by (auto simp: b)
  have d: "build_row orders ex = None \<and>
      build_rows orders (ex # fills) = build_rows orders fills"
    if "(map_of ex TAG_ORIGCLORDID = None \<or> map_of ex TAG_ORIGCLORDID = Some []) \<and>
      (map_of ex TAG_CLORDID = None \<or> map_of ex TAG_CLORDID = Some [])"
  proof -
    from that r have "resolve_clid ex = None \<or> resolve_clid ex = Some []" by auto
    then have "build_row orders ex = None" by (rule build_row_unresolved)
    then show ?thesis by simp
  qed
  from r b p f d show ?thesis by blast
qed

theorem c3_witness:
  "map_of (fst (load_orders_and_fills
       [order_line, str ''35=D|11=B2|40=2|60=T9|55=ABC|54=2|38=5|44=3.00''])) (str ''A1'')
     = Some (stored_order (str ''A1'') ORDTYPE_LIMIT (parse_fix_line order_line)) \<and>
   map_of (fst (load_orders_and_fills
       [order_line, str ''35=D|11=B2|40=2|60=T9|55=ABC|54=2|38=5|44=3.00''])) (str ''B2'')
     = Some (stored_order (str ''B2'') ORDTYPE_LIMIT
         (parse_fix_line (str ''35=D|11=B2|40=2|60=T9|55=ABC|54=2|38=5|44=3.00''))) \<and>
   build_row (fst (load_orders_and_fills
       [order_line, str ''35=D|11=B2|40=2|60=T9|55=ABC|54=2|38=5|44=3.00'']))
     (parse_fix_line (str ''35=8|41=A1|11=B2|150=2|39=2|60=T2|6=10.40|30=X''))
     = Some [str ''A1'', str ''20250910-08:00:00.377'', str ''T2'', str ''XYZ'', str ''1'',
             str ''100'', str ''10.50'', str ''10.40'', str ''X''] \<and>
   build_row (fst (load_orders_and_fills
       [order_line, str ''35=D|11=B2|40=2|60=T9|55=ABC|54=2|38=5|44=3.00'']))
     (parse_fix_line (str ''35=8|11=B2|150=2|39=2|60=T2|6=10.40|30=X''))
     = Some [str ''B2'', str ''T9'', str ''T2'', str ''ABC'', str ''2'', str ''5'',
             str ''3.00'', str ''10.40'', str ''X''] \<and>
   build_row (fst (load_orders_and_fills
       [order_line, str ''35=D|11=B2|40=2|60=T9|55=ABC|54=2|38=5|44=3.00'']))
     (parse_fix_line (str ''35=8|41=|11=B2|150=2|39=2|60=T2|6=10.40|30=X''))
     = Some [str ''B2'', str ''T9'', str ''T2'', str ''ABC'', str ''2'', str ''5'',
             str ''3.00'', str ''10.40'', str ''X''] \<and>
   build_row (fst (load_orders_and_fills
       [order_line, str ''35=D|11=B2|40=2|60=T9|55=ABC|54=2|38=5|44=3.00'']))
     (parse_fix_line (str ''35=8|150=2|39=2|60=T2|6=10.40|30=X'')) = None"
proof -
  let ?l2 = "str ''35=D|11=B2|40=2|60=T9|55=ABC|54=2|38=5|44=3.00''"
  let ?os = "fst (load_orders_and_fills [order_line, ?l2])"
  let ?oA = "stored_order (str ''A1'') ORDTYPE_LIMIT (parse_fix_line order_line)"
  let ?oB = "stored_order (str ''B2'') ORDTYPE_LIMIT (parse_fix_line ?l2)"
  let ?p = "parse_fix_line (str ''35=8|41=A1|11=B2|150=2|39=2|60=T2|6=10.40|30=X'')"
  let ?q = "parse_fix_line (str ''35=8|11=B2|150=2|39=2|60=T2|6=10.40|30=X'')"
  let ?e = "parse_fix_line (str ''35=8|41=|11=B2|150=2|39=2|60=T2|6=10.40|30=X'')"
  let ?n = "parse_fix_line (str ''35=8|150=2|39=2|60=T2|6=10.40|30=X'')"
  let ?rowA = "[str ''A1'', str ''20250910-08:00:00.377'', str ''T2'', str ''XYZ'', str ''1'',
      str ''100'', str ''10.50'', str ''10.40'', str ''X'']"
  let ?rowB = "[str ''B2'', str ''T9'', str ''T2'', str ''ABC'', str ''2'', str ''5'',
      str ''3.00'', str ''10.40'', str ''X'']"
  have sA: "map_of ?os (str ''A1'') = Some ?oA"
    by (simp add: eval_defs order_line_def)
  have sB: "map_of ?os (str ''B2'') = Some ?oB"
    by (simp add: eval_defs order_line_def)
  have ne: "str ''A1'' \<noteq> []" "str ''B2'' \<noteq> []" "?oA \<noteq> []" "?oB \<noteq> []"
    by (simp_all add: str_def stored_order_def)
  have p: "map_of ?p TAG_ORIGCLORDID = Some (str ''A1'')" "map_of ?p TAG_ORDTYPE = None"
    by (simp_all add: eval_defs)
  have q: "map_of ?q TAG_ORIGCLORDID = None" "map_of ?q TAG_CLORDID = Some (str ''B2'')"
    "map_of ?q TAG_ORDTYPE = None"
    by (simp_all add: eval_defs)
  have e: "map_of ?e TAG_ORIGCLORDID = Some []" "map_of ?e TAG_CLORDID = Some (str ''B2'')"
    "map_of ?e TAG_ORDTYPE = None"
    by (simp_all add: eval_defs)
  have n: "map_of ?n TAG_ORIGCLORDID = None" "map_of ?n TAG_CLORDID = None"
    by (simp_all add: eval_defs)
  have rows: "compose_row ?oA ?p = ?rowA" "compose_row ?oB ?q = ?rowB"
    "compose_row ?oB ?e = ?rowB"
    by (simp_all add: eval_defs order_line_def)
  have "build_row ?os ?p = Some (compose_row ?oA ?p)"
    using c3_identifier_resolution [of ?p ?os "[]"] p sA ne by blast
  moreover have "build_row ?os ?q = Some (compose_row ?oB ?q)"
    using c3_identifier_resolution [of ?q ?os "[]"] q sB ne by blast
  moreover have "build_row ?os ?e = Some (compose_row ?oB ?e)"
    using c3_identifier_resolution [of ?e ?os "[]"] e sB ne by blast
  moreover have "build_row ?os ?n = None"
    using c3_identifier_resolution [of ?n ?os "[]"] n by blast
  ultimately show ?thesis using sA sB rows by simp
qed

text \<open>
  C4. For tag and value pairs whose tags hold no \<open>SOH\<close>, no pipe, no whitespace and no
  \<open>=\<close>, and whose values hold no \<open>SOH\<close>, no pipe and no whitespace, the line with the
  fields joined by \<open>SOH\<close>, the line with the fields joined by a pipe and the line with
  the fields joined by any non-empty run of whitespace tokenize to the same dictionary:
  the one that assigning the pairs in their order builds, which for distinct tags maps
  each tag to its value.
\<close>

theorem c4_delimiter_independence:
  assumes "\<forall>kv \<in> set kvs. clean_tag (fst kv) \<and> clean_value (snd kv)"
    and "ws \<noteq> []" and "\<forall>c \<in> set ws. isspace c"
  shows "parse_fix_line (render [SOH] kvs) = parse_fix_line (render [PIPE] kvs) \<and>
         parse_fix_line (render [PIPE] kvs) = parse_fix_line (render ws kvs) \<and>
         parse_fix_line (render ws kvs) = dict_of kvs \<and>
         (distinct (map fst kvs) \<longrightarrow> map_of (parse_fix_line (render ws kvs)) = map_of kvs)"
proof -
  have "parse_fix_line (render [SOH] kvs) = dict_of kvs"
    using assms(1) by (rule parse_rendered) simp
  moreover have "parse_fix_line (render [PIPE] kvs) = dict_of kvs"
    using assms(1) by (rule parse_rendered) simp
  moreover have "parse_fix_line (render ws kvs) = dict_of kvs"
    using assms(1) by (rule parse_rendered) (use assms(2,3) in simp)
  ultimately show ?thesis by (simp add: map_of_dict_of)
qed

theorem c4_witness:
  "clean_tag (str ''35'') \<and> clean_value (str ''D'') \<and> clean_tag (str ''11'') \<and>
   clean_value (str ''A=1'') \<and> isspace 32 \<and> isspace 9 \<and>
   render [SOH] [(str ''35'', str ''D''), (str ''11'', str ''A=1'')]
     = str ''35=D'' @ SOH # str ''11=A=1'' \<and>
   render [PIPE] [(str ''35'', str ''D''), (str ''11'', str ''A=1'')] = str ''35=D|11=A=1'' \<and>
   render [32, 9] [(str ''35'', str ''D''), (str ''11'', str ''A=1'')]
     = str ''35=D'' @ [32, 9] @ str ''11=A=1'' \<and>
   parse_fix_line (str ''35=D'' @ SOH # str ''11=A=1'') = parse_fix_line (str ''35=D|11=A=1'') \<and>
   parse_fix_line (str ''35=D|11=A=1'') = parse_fix_line (str ''35=D'' @ [32, 9] @ str ''11=A=1'') \<and>
   parse_fix_line (str ''35=D'' @ [32, 9] @ str ''11=A=1'')
     = [(str ''35'', str ''D''), (str ''11'', str ''A=1'')]"
proof -
  let ?kvs = "[(str ''35'', str ''D''), (str ''11'', str ''A=1'')]"
  have c: "clean_tag (str ''35'')" "clean_value (str ''D'')" "clean_tag (str ''11'')"
    "clean_value (str ''A=1'')"
    by (simp_all add: clean_tag_def clean_value_def eval_defs)
  then have h1: "\<forall>kv \<in> set ?kvs. clean_tag (fst kv) \<and> clean_value (snd kv)"
    by simp
  have sp: "isspace 32" "isspace 9" by (simp_all add: isspace_def)
  then have h3: "\<forall>c \<in> set [32, 9]. isspace c" by simp
  have h2: "[32, 9 :: pychar] \<noteq> []" by simp
  have r: "render [SOH] ?kvs = str ''35=D'' @ SOH # str ''11=A=1''"
    "render [PIPE] ?kvs = str ''35=D|11=A=1''"
    "render [32, 9] ?kvs = str ''35=D'' @ [32, 9] @ str ''11=A=1''"
    by (simp_all add: render_def field_text_def str_def EQ_def PIPE_def)
  have d: "dict_of ?kvs = ?kvs"
    by (simp add: dict_of_def str_def)
  from c4_delimiter_independence [OF h1 h2 h3] r d
  have "parse_fix_line (str ''35=D'' @ SOH # str ''11=A=1'') = parse_fix_line (str ''35=D|11=A=1'') \<and>
      parse_fix_line (str ''35=D|11=A=1'')
        = parse_fix_line (str ''35=D'' @ [32, 9] @ str ''11=A=1'') \<and>
      parse_fix_line (str ''35=D'' @ [32, 9] @ str ''11=A=1'') = ?kvs"
    by simp
  with c sp r show ?thesis by blast
qed

text \<open>
  C5, as stated, fails for the symbol, the side and the quantity. Below, two qualifying
  orders have the identifier \<open>A1\<close>; the later one has no symbol, side or quantity, and the
  row carries the symbol that the fill echoes, not the (empty) one of the later order.
\<close>

theorem c5_counterexample:
  "qualifying_order (str ''A1'') (parse_fix_line (str ''35=D|11=A1|40=2|60=T1|55=OLD|44=1.00'')) \<and>
   qualifying_order (str ''A1'') (parse_fix_line (str ''35=D|11=A1|40=2|60=T2|44=2.00'')) \<and>
   map_of (parse_fix_line (str ''35=D|11=A1|40=2|60=T2|44=2.00'')) TAG_SYMBOL = None \<and>
   get_or (stored_order (str ''A1'') ORDTYPE_LIMIT
     (parse_fix_line (str ''35=D|11=A1|40=2|60=T2|44=2.00''))) TAG_SYMBOL [] = [] \<and>
   convert [str ''35=D|11=A1|40=2|60=T1|55=OLD|44=1.00'',
            str ''35=D|11=A1|40=2|60=T2|44=2.00'',
            str ''35=8|41=A1|150=2|39=2|60=T3|55=ECHO|6=1.50|30=X''] =
     [[str ''A1'', str ''T2'', str ''T3'', str ''ECHO'', [], [], str ''2.00'', str ''1.50'',
       str ''X'']]"
  by (simp add: eval_defs qualifying_order_def)

text \<open>
  C5, amended. When two lines of the input are qualifying orders under the identifier
  \<open>c\<close> and no line after the later one is, the store holds under \<open>c\<close> the fields of the
  later line, and every row whose identifier is \<open>c\<close> carries the timestamp and the limit
  price of the later order, and its symbol, side and quantity where these are not
  empty; where one of them is empty the row has what the fill echoes.
\<close>

theorem c5_last_order_wins:
  assumes "lines = pre @ l1 # mid @ l2 # post"
    and "qualifying_order c (parse_fix_line l1)"
    and "qualifying_order c (parse_fix_line l2)"
    and "\<forall>l \<in> set post. \<not> qualifying_order c (parse_fix_line l)"
  shows "map_of (fst (load_orders_and_fills lines)) c
           = Some (stored_order c ORDTYPE_LIMIT (parse_fix_line l2)) \<and>
         (\<forall>row \<in> set (convert lines). row ! 0 = c \<longrightarrow>
            (\<exists>fl \<in> set lines. qualifying_fill (parse_fix_line fl) \<and>
               row = [c,
                      get_or (parse_fix_line l2) TAG_TRANSACTTIME [],
                      get_or (parse_fix_line fl) TAG_TRANSACTTIME [],
                      or_str (get_or (parse_fix_line l2) TAG_SYMBOL [])
                        (get_or (parse_fix_line fl) TAG_SYMBOL []),
                      or_str (get_or (parse_fix_line l2) TAG_SIDE [])
                        (get_or (parse_fix_line fl) TAG_SIDE []),
                      or_str (get_or (parse_fix_line l2) TAG_ORDERQTY [])
                        (get_or (parse_fix_line fl) TAG_ORDERQTY []),
                      get_or (parse_fix_line l2) TAG_PRICE [],
                      get_or (parse_fix_line fl) TAG_AVGPX [],
                      get_or (parse_fix_line fl) TAG_LASTMKT []]))"
proof (intro conjI ballI impI)
  have "lines = (pre @ l1 # mid) @ l2 # post" using assms(1) by simp
  then show stored: "map_of (fst (load_orders_and_fills lines)) c
      = Some (stored_order c ORDTYPE_LIMIT (parse_fix_line l2))"
    using store_last_order [OF assms(3,4), of "pre @ l1 # mid"] by simp
  fix row
  assume row: "row \<in> set (convert lines)" and id: "row ! 0 = c"
  from row obtain fl where fl: "fl \<in> set lines" "qualifying_fill (parse_fix_line fl)"
    and b: "build_row (fst (load_orders_and_fills lines)) (parse_fix_line fl) = Some row"
    by (auto simp: convert_rows)
  from build_row_Some [OF b] obtain c' order where
    o: "map_of (fst (load_orders_and_fills lines)) c' = Some order" and
    r: "row = compose_row order (parse_fix_line fl)"
    by blast
  from store_entry [OF o] obtain l' where
    "order = stored_order c' ORDTYPE_LIMIT (parse_fix_line l')"
    by blast
  with r have "row ! 0 = c'" by (simp add: compose_stored_order)
  with id o stored have "order = stored_order c ORDTYPE_LIMIT (parse_fix_line l2)" by simp
  with r fl show "\<exists>fl \<in> set lines. qualifying_fill (parse_fix_line fl) \<and>
      row = [c,
             get_or (parse_fix_line l2) TAG_TRANSACTTIME [],
             get_or (parse_fix_line fl) TAG_TRANSACTTIME [],
             or_str (get_or (parse_fix_line l2) TAG_SYMBOL [])
               (get_or (parse_fix_line fl) TAG_SYMBOL []),
             or_str (get_or (parse_fix_line l2) TAG_SIDE [])
               (get_or (parse_fix_line fl) TAG_SIDE []),
             or_str (get_or (parse_fix_line l2) TAG_ORDERQTY [])
               (get_or (parse_fix_line fl) TAG_ORDERQTY []),
             get_or (parse_fix_line l2) TAG_PRICE [],
             get_or (parse_fix_line fl) TAG_AVGPX [],
             get_or (parse_fix_line fl) TAG_LASTMKT []]"
    by (auto simp: compose_stored_order)
qed

theorem c5_witness:
  "qualifying_order (str ''A1'')
     (parse_fix_line (str ''35=D|11=A1|40=2|60=T1|55=OLD|54=2|38=7|44=1.00'')) \<and>
   qualifying_order (str ''A1'') (parse_fix_line order_line) \<and>
   convert ([] @ str ''35=D|11=A1|40=2|60=T1|55=OLD|54=2|38=7|44=1.00'' # [] @ order_line #
            [fill_line]) = [scenario_row] \<and>
   map_of (fst (load_orders_and_fills
       ([] @ str ''35=D|11=A1|40=2|60=T1|55=OLD|54=2|38=7|44=1.00'' # [] @ order_line #
        [fill_line]))) (str ''A1'')
     = Some (stored_order (str ''A1'') ORDTYPE_LIMIT (parse_fix_line order_line))"
proof -
  let ?l1 = "str ''35=D|11=A1|40=2|60=T1|55=OLD|54=2|38=7|44=1.00''"
  let ?lines = "[] @ ?l1 # [] @ order_line # [fill_line]"
  have q1: "qualifying_order (str ''A1'') (parse_fix_line ?l1)"
    by (simp add: eval_defs qualifying_order_def)
  have q2: "qualifying_order (str ''A1'') (parse_fix_line order_line)"
    by (simp add: eval_defs qualifying_order_def order_line_def)
  have q3: "\<forall>l \<in> set [fill_line]. \<not> qualifying_order (str ''A1'') (parse_fix_line l)"
    by (simp add: eval_defs qualifying_order_def fill_line_def)
  have rows: "convert ?lines = [scenario_row]"
    by (simp add: eval_defs order_line_def fill_line_def scenario_row_def)
  from c5_last_order_wins [where pre = "[]" and mid = "[]", OF refl q1 q2 q3]
  have "map_of (fst (load_orders_and_fills ?lines)) (str ''A1'')
      = Some (stored_order (str ''A1'') ORDTYPE_LIMIT (parse_fix_line order_line))"
    by blast
  with q1 q2 rows show ?thesis by blast
qed

text \<open>
  C6. An execution report whose tag 150 is not \<open>2\<close> or whose tag 39 is not \<open>2\<close> is ignored:
  its line leaves the loader's state as it is, so the input with the line and the input
  without it give the same orders, the same fills and the same rows, whatever orders
  are stored; and the message is never among the fills of any input.
\<close>

theorem c6_report_without_full_fill_ignored:
  assumes "map_of (parse_fix_line l) TAG_MSGTYPE = Some MSG_EXEC_REPORT"
    and "map_of (parse_fix_line l) TAG_EXECTYPE \<noteq> Some EXECTYPE_FILL \<or>
         map_of (parse_fix_line l) TAG_ORDSTATUS \<noteq> Some ORDSTATUS_FILLED"
  shows "process_line st l = st \<and>
         load_orders_and_fills (pre @ l # post) = load_orders_and_fills (pre @ post) \<and>
         convert (pre @ l # post) = convert (pre @ post) \<and>
         parse_fix_line l \<notin> set (snd (load_orders_and_fills lines))"
proof -
  have nf: "\<not> qualifying_fill (parse_fix_line l)"
    using assms(2) by (auto simp: qualifying_fill_def)
  have no: "\<forall>c. \<not> qualifying_order c (parse_fix_line l)"
    using assms(1) msgtypes_differ by (auto simp: qualifying_order_def)
  have skip: "\<And>st. process_line st l = st"
    using no nf by (rule process_other)
  have same: "load_orders_and_fills (pre @ l # post) = load_orders_and_fills (pre @ post)"
    using skip by (rule skipped_line)
  have "parse_fix_line l \<notin> set (snd (load_orders_and_fills lines))"
    using nf by (auto simp: fills_of_input)
  with skip same show ?thesis by (simp add: convert_def)
qed

theorem c6_witness:
  "map_of (parse_fix_line (str ''35=8|41=A1|150=1|39=1|60=T|30=X'')) TAG_MSGTYPE
     = Some MSG_EXEC_REPORT \<and>
   map_of (parse_fix_line (str ''35=8|41=A1|150=1|39=1|60=T|30=X'')) TAG_EXECTYPE
     \<noteq> Some EXECTYPE_FILL \<and>
   map_of (fst (load_orders_and_fills [order_line])) (str ''A1'') \<noteq> None \<and>
   convert ([order_line] @ str ''35=8|41=A1|150=1|39=1|60=T|30=X'' # []) = []"
proof -
  let ?l = "str ''35=8|41=A1|150=1|39=1|60=T|30=X''"
  have h1: "map_of (parse_fix_line ?l) TAG_MSGTYPE = Some MSG_EXEC_REPORT"
    by (simp add: eval_defs)
  have h2: "map_of (parse_fix_line ?l) TAG_EXECTYPE \<noteq> Some EXECTYPE_FILL"
    by (simp add: eval_defs)
  then have h2': "map_of (parse_fix_line ?l) TAG_EXECTYPE \<noteq> Some EXECTYPE_FILL \<or>
      map_of (parse_fix_line ?l) TAG_ORDSTATUS \<noteq> Some ORDSTATUS_FILLED"
    by simp
  have stored: "map_of (fst (load_orders_and_fills [order_line])) (str ''A1'') \<noteq> None"
    by (simp add: eval_defs order_line_def)
  have "convert ([order_line] @ ?l # []) = convert ([order_line] @ [])"
    using c6_report_without_full_fill_ignored [OF h1 h2'] by blast
  moreover have "convert ([order_line] @ []) = []"
    by (simp add: eval_defs order_line_def)
  ultimately show ?thesis using h1 h2 stored by simp
qed

text \<open>
  C7. A new-order message whose tag 40 is not \<open>2\<close>, or is absent, is not entered into the
  store: its line leaves the loader's state as it is. Every entry of the store has
  order type \<open>2\<close>. An identifier under which no line of the input is a qualifying order
  has no entry in the store. A fill whose resolved identifier has no entry in the store
  is dropped: no row, and the loop goes on with the next fill.
\<close>

theorem c7_only_limit_orders_stored:
  "(map_of (parse_fix_line l) TAG_MSGTYPE = Some MSG_NEW_ORDER_SINGLE \<and>
    map_of (parse_fix_line l) TAG_ORDTYPE \<noteq> Some ORDTYPE_LIMIT \<longrightarrow>
      process_line st l = st \<and>
      load_orders_and_fills (pre @ l # post) = load_orders_and_fills (pre @ post)) \<and>
   (\<forall>(k, order) \<in> set (fst (load_orders_and_fills lines)).
      map_of order TAG_ORDTYPE = Some ORDTYPE_LIMIT) \<and>
   ((\<forall>l \<in> set lines. \<not> qualifying_order c (parse_fix_line l)) \<longrightarrow>
      map_of (fst (load_orders_and_fills lines)) c = None) \<and>
   (resolve_clid ex = Some c \<and> map_of orders c = None \<longrightarrow>
      build_row orders ex = None \<and>
      build_rows orders (ex # fills) = build_rows orders fills)"
proof (intro conjI impI)
  assume a: "map_of (parse_fix_line l) TAG_MSGTYPE = Some MSG_NEW_ORDER_SINGLE \<and>
    map_of (parse_fix_line l) TAG_ORDTYPE \<noteq> Some ORDTYPE_LIMIT"
  have nf: "\<not> qualifying_fill (parse_fix_line l)"
    using a msgtypes_differ by (auto simp: qualifying_fill_def)
  have no: "\<forall>c. \<not> qualifying_order c (parse_fix_line l)"
    using a by (auto simp: qualifying_order_def)
  have skip: "\<And>st. process_line st l = st"
    using no nf by (rule process_other)
  show "process_line st l = st" by (rule skip)
  show "load_orders_and_fills (pre @ l # post) = load_orders_and_fills (pre @ post)"
    using skip by (rule skipped_line)
next
  show "\<forall>(k, order) \<in> set (fst (load_orders_and_fills lines)).
      map_of order TAG_ORDTYPE = Some ORDTYPE_LIMIT"
  proof (clarify)
    fix k order
    assume "(k, order) \<in> set (fst (load_orders_and_fills lines))"
    then have "\<exists>l \<in> set lines. order = stored_order k ORDTYPE_LIMIT (parse_fix_line l)"
      using store_entries [of k order "[]" "[]" lines]
      by (auto simp: load_orders_and_fills_def)
    then show "map_of order TAG_ORDTYPE = Some ORDTYPE_LIMIT"
      by (auto simp: stored_order_fields)
  qed
next
  assume "\<forall>l \<in> set lines. \<not> qualifying_order c (parse_fix_line l)"
  then show "map_of (fst (load_orders_and_fills lines)) c = None"
    by (rule store_without_order)
next
  assume b: "resolve_clid ex = Some c \<and> map_of orders c = None"
  then show "build_row orders ex = None" by (simp add: build_row_unmatched)
  then show "build_rows orders (ex # fills) = build_rows orders fills" by simp
qed

theorem c7_witness:
  "map_of (parse_fix_line (str ''35=D|11=A1|40=1|60=T1'')) TAG_MSGTYPE
     = Some MSG_NEW_ORDER_SINGLE \<and>
   map_of (parse_fix_line (str ''35=D|11=A1|40=1|60=T1'')) TAG_ORDTYPE \<noteq> Some ORDTYPE_LIMIT \<and>
   load_orders_and_fills ([] @ str ''35=D|11=A1|40=1|60=T1'' # [fill_line])
     = load_orders_and_fills ([] @ [fill_line]) \<and>
   (str ''A1'', stored_order (str ''A1'') ORDTYPE_LIMIT (parse_fix_line order_line))
     \<in> set (fst (load_orders_and_fills [order_line])) \<and>
   map_of (stored_order (str ''A1'') ORDTYPE_LIMIT (parse_fix_line order_line)) TAG_ORDTYPE
     = Some ORDTYPE_LIMIT \<and>
   resolve_clid (parse_fix_line fill_line) = Some (str ''A1'') \<and>
   map_of (fst (load_orders_and_fills [str ''35=D|11=A1|40=1|60=T1'', fill_line])) (str ''A1'')
     = None \<and>
   build_row (fst (load_orders_and_fills [str ''35=D|11=A1|40=1|60=T1'', fill_line]))
     (parse_fix_line fill_line) = None"
proof -
  let ?l = "str ''35=D|11=A1|40=1|60=T1''"
  let ?os = "fst (load_orders_and_fills [?l, fill_line])"
  have h1: "map_of (parse_fix_line ?l) TAG_MSGTYPE = Some MSG_NEW_ORDER_SINGLE \<and>
      map_of (parse_fix_line ?l) TAG_ORDTYPE \<noteq> Some ORDTYPE_LIMIT"
    by (simp add: eval_defs)
  have h2: "resolve_clid (parse_fix_line fill_line) = Some (str ''A1'')"
    by (simp add: eval_defs fill_line_def)
  have h3: "\<forall>l \<in> set [?l, fill_line]. \<not> qualifying_order (str ''A1'') (parse_fix_line l)"
    by (simp add: eval_defs qualifying_order_def fill_line_def)
  have ne: "(str ''A1'', stored_order (str ''A1'') ORDTYPE_LIMIT (parse_fix_line order_line))
      \<in> set (fst (load_orders_and_fills [order_line]))"
    by (simp add: eval_defs order_line_def)
  note stored = c7_only_limit_orders_stored [where lines = "[order_line]"]
  note dropped = c7_only_limit_orders_stored
    [where l = ?l and pre = "[]" and post = "[fill_line]" and lines = "[?l, fill_line]"
       and c = "str ''A1''" and ex = "parse_fix_line fill_line" and orders = ?os]
  from dropped h1 have "load_orders_and_fills ([] @ ?l # [fill_line])
      = load_orders_and_fills ([] @ [fill_line])" by blast
  moreover from stored ne
  have "map_of (stored_order (str ''A1'') ORDTYPE_LIMIT (parse_fix_line order_line)) TAG_ORDTYPE
      = Some ORDTYPE_LIMIT" by blast
  moreover from dropped h3 have none: "map_of ?os (str ''A1'') = None" by blast
  moreover from dropped h2 none have "build_row ?os (parse_fix_line fill_line) = None" by blast
  ultimately show ?thesis using h1 h2 ne by blast
qed

text \<open>
  C8, as stated, fails: the fill below qualifies (tags 150 and 39 are \<open>2\<close>) and precedes
  a qualifying order of its identifier, but it echoes the order type \<open>1\<close> and is dropped.
\<close>

theorem c8_counterexample:
  "qualifying_fill (parse_fix_line (str ''35=8|41=A1|150=2|39=2|40=1|60=T2|6=10.40|30=X'')) \<and>
   resolve_clid (parse_fix_line (str ''35=8|41=A1|150=2|39=2|40=1|60=T2|6=10.40|30=X''))
     = Some (str ''A1'') \<and>
   qualifying_order (str ''A1'') (parse_fix_line order_line) \<and>
   convert [str ''35=8|41=A1|150=2|39=2|40=1|60=T2|6=10.40|30=X'', order_line] = []"
  by (simp add: eval_defs qualifying_fill_def qualifying_order_def order_line_def)

text \<open>
  C8, amended. The store is built from the whole input before any fill is looked up:
  when a qualifying fill line precedes a qualifying order line of the identifier it
  resolves to, and the fill carries no tag 40 or carries \<open>2\<close> there, the row composed of
  the fill and of the order stored under that identifier is emitted; the stored order
  is the one of that order line when no later line is a qualifying order of the same
  identifier.
\<close>

theorem c8_fill_before_order:
  assumes "lines = pre @ fl # mid @ ol # post"
    and "qualifying_fill (parse_fix_line fl)"
    and "resolve_clid (parse_fix_line fl) = Some c"
    and "qualifying_order c (parse_fix_line ol)"
    and "map_of (parse_fix_line fl) TAG_ORDTYPE = None \<or>
         map_of (parse_fix_line fl) TAG_ORDTYPE = Some ORDTYPE_LIMIT"
  shows "(\<exists>order. map_of (fst (load_orders_and_fills lines)) c = Some order \<and>
            compose_row order (parse_fix_line fl) \<in> set (convert lines)) \<and>
         ((\<forall>l \<in> set post. \<not> qualifying_order c (parse_fix_line l)) \<longrightarrow>
            compose_row (stored_order c ORDTYPE_LIMIT (parse_fix_line ol)) (parse_fix_line fl)
              \<in> set (convert lines))"
proof -
  have inl: "fl \<in> set lines" "ol \<in> set lines" using assms(1) by simp_all
  from store_has_order [OF inl(2) assms(4)] obtain order where
    o: "map_of (fst (load_orders_and_fills lines)) c = Some order"
    by blast
  from store_entry [OF o] have ne: "c \<noteq> []" "order \<noteq> []"
    by (auto simp: qualifying_order_def stored_order_nonempty)
  have "build_row (fst (load_orders_and_fills lines)) (parse_fix_line fl)
      = Some (compose_row order (parse_fix_line fl))"
    using build_row_matched [OF assms(3) ne(1) o ne(2)] assms(5) by auto
  then have m: "compose_row order (parse_fix_line fl) \<in> set (convert lines)"
    using inl(1) assms(2) convert_rows by blast
  have "compose_row (stored_order c ORDTYPE_LIMIT (parse_fix_line ol)) (parse_fix_line fl)
      \<in> set (convert lines)"
    if last: "\<forall>l \<in> set post. \<not> qualifying_order c (parse_fix_line l)"
  proof -
    have "lines = (pre @ fl # mid) @ ol # post" using assms(1) by simp
    then have "map_of (fst (load_orders_and_fills lines)) c
        = Some (stored_order c ORDTYPE_LIMIT (parse_fix_line ol))"
      using store_last_order [OF assms(4) last, of "pre @ fl # mid"] by simp
    with o m show ?thesis by simp
  qed
  with o m show ?thesis by blast
qed

theorem c8_witness:
  "qualifying_fill (parse_fix_line fill_line) \<and>
   resolve_clid (parse_fix_line fill_line) = Some (str ''A1'') \<and>
   qualifying_order (str ''A1'') (parse_fix_line order_line) \<and>
   map_of (parse_fix_line fill_line) TAG_ORDTYPE = None \<and>
   scenario_row \<in> set (convert ([] @ fill_line # [] @ order_line # []))"
proof -
  have f: "qualifying_fill (parse_fix_line fill_line)"
    by (simp add: eval_defs qualifying_fill_def fill_line_def)
  have r: "resolve_clid (parse_fix_line fill_line) = Some (str ''A1'')"
    by (simp add: eval_defs fill_line_def)
  have q: "qualifying_order (str ''A1'') (parse_fix_line order_line)"
    by (simp add: eval_defs qualifying_order_def order_line_def)
  have t: "map_of (parse_fix_line fill_line) TAG_ORDTYPE = None"
    by (simp add: eval_defs fill_line_def)
  then have t': "map_of (parse_fix_line fill_line) TAG_ORDTYPE = None \<or>
      map_of (parse_fix_line fill_line) TAG_ORDTYPE = Some ORDTYPE_LIMIT"
    by simp
  have row: "compose_row (stored_order (str ''A1'') ORDTYPE_LIMIT (parse_fix_line order_line))
      (parse_fix_line fill_line) = scenario_row"
    by (simp add: eval_defs order_line_def fill_line_def scenario_row_def)
  have last: "\<forall>l \<in> set []. \<not> qualifying_order (str ''A1'') (parse_fix_line l)"
    by simp
  from c8_fill_before_order [where pre = "[]" and mid = "[]" and post = "[]", OF refl f r q t']
    last row
  have "scenario_row \<in> set (convert ([] @ fill_line # [] @ order_line # []))"
    by simp
  with f r q t show ?thesis by blast
qed

text \<open>
  C9. A fill that resolves to an order of the store is dropped when it carries its own
  tag 40 with a value other than \<open>2\<close>; when it carries no tag 40, the row composed of the
  order and the fill is emitted.
\<close>

theorem c9_echoed_order_type_check:
  assumes "resolve_clid ex = Some c"
    and "map_of (fst (load_orders_and_fills lines)) c = Some order"
  shows "(\<forall>t. map_of ex TAG_ORDTYPE = Some t \<and> t \<noteq> ORDTYPE_LIMIT \<longrightarrow>
            build_row (fst (load_orders_and_fills lines)) ex = None \<and>
            build_rows (fst (load_orders_and_fills lines)) (ex # fills)
              = build_rows (fst (load_orders_and_fills lines)) fills) \<and>
         (map_of ex TAG_ORDTYPE = None \<longrightarrow>
            build_row (fst (load_orders_and_fills lines)) ex = Some (compose_row order ex) \<and>
            build_rows (fst (load_orders_and_fills lines)) (ex # fills)
              = compose_row order ex # build_rows (fst (load_orders_and_fills lines)) fills)"
proof -
  from store_entry [OF assms(2)] have "c \<noteq> []" "order \<noteq> []"
    by (auto simp: qualifying_order_def stored_order_nonempty)
  from build_row_matched [OF assms(1) this(1) assms(2) this(2)] show ?thesis
    by auto
qed

theorem c9_witness:
  "resolve_clid (parse_fix_line (str ''35=8|41=A1|150=2|39=2|40=1|60=T2|30=X'')) = Some (str ''A1'') \<and>
   map_of (fst (load_orders_and_fills [order_line])) (str ''A1'')
     = Some (stored_order (str ''A1'') ORDTYPE_LIMIT (parse_fix_line order_line)) \<and>
   map_of (parse_fix_line (str ''35=8|41=A1|150=2|39=2|40=1|60=T2|30=X'')) TAG_ORDTYPE
     = Some (str ''1'') \<and>
   build_row (fst (load_orders_and_fills [order_line]))
     (parse_fix_line (str ''35=8|41=A1|150=2|39=2|40=1|60=T2|30=X'')) = None \<and>
   resolve_clid (parse_fix_line fill_line) = Some (str ''A1'') \<and>
   map_of (parse_fix_line fill_line) TAG_ORDTYPE = None \<and>
   build_row (fst (load_orders_and_fills [order_line])) (parse_fix_line fill_line)
     = Some scenario_row"
proof -
  let ?f = "str ''35=8|41=A1|150=2|39=2|40=1|60=T2|30=X''"
  let ?o = "stored_order (str ''A1'') ORDTYPE_LIMIT (parse_fix_line order_line)"
  have r1: "resolve_clid (parse_fix_line ?f) = Some (str ''A1'')"
    by (simp add: eval_defs)
  have r2: "resolve_clid (parse_fix_line fill_line) = Some (str ''A1'')"
    by (simp add: eval_defs fill_line_def)
  have s: "map_of (fst (load_orders_and_fills [order_line])) (str ''A1'') = Some ?o"
    by (simp add: eval_defs order_line_def)
  have t1: "map_of (parse_fix_line ?f) TAG_ORDTYPE = Some (str ''1'')"
    "str ''1'' \<noteq> ORDTYPE_LIMIT"
    by (simp_all add: eval_defs)
  have t2: "map_of (parse_fix_line fill_line) TAG_ORDTYPE = None"
    by (simp add: eval_defs fill_line_def)
  have row: "compose_row ?o (parse_fix_line fill_line) = scenario_row"
    by (simp add: eval_defs order_line_def fill_line_def scenario_row_def)
  from c9_echoed_order_type_check [OF r1 s, of "[]"] t1
  have "build_row (fst (load_orders_and_fills [order_line])) (parse_fix_line ?f) = None"
    by blast
  moreover from c9_echoed_order_type_check [OF r2 s, of "[]"] t2 row
  have "build_row (fst (load_orders_and_fills [order_line])) (parse_fix_line fill_line)
      = Some scenario_row"
    by simp
  ultimately show ?thesis using r1 r2 s t1 t2 by blast
qed

text \<open>
  C10. A fill whose tag 41 is present with the empty string as its value is treated as a
  fill without tag 41: the identifier is the one of tag 11, the order is looked up under
  tag 11, and the row of that order and the fill is emitted unless no order is stored
  there or the fill echoes an order type other than \<open>2\<close>. The outcome is the outcome of
  the same message with tag 41 removed.
\<close>

theorem c10_empty_original_id_falls_back:
  assumes "map_of ex TAG_ORIGCLORDID = Some []"
  shows "resolve_clid ex = map_of ex TAG_CLORDID \<and>
         resolve_clid ex = resolve_clid (AList.delete TAG_ORIGCLORDID ex) \<and>
         build_row orders ex = build_row orders (AList.delete TAG_ORIGCLORDID ex) \<and>
         build_row orders ex =
           (case map_of ex TAG_CLORDID of
              None \<Rightarrow> None
            | Some c \<Rightarrow>
                (case map_of orders c of
                   None \<Rightarrow> None
                 | Some order \<Rightarrow>
                     if c \<noteq> [] \<and> order \<noteq> [] \<and>
                        (map_of ex TAG_ORDTYPE = None \<or>
                         map_of ex TAG_ORDTYPE = Some ORDTYPE_LIMIT)
                     then Some (compose_row order ex) else None)) \<and>
         (\<forall>c order. map_of ex TAG_CLORDID = Some c \<and> c \<noteq> [] \<and>
            map_of orders c = Some order \<and> order \<noteq> [] \<and> map_of ex TAG_ORDTYPE = None \<longrightarrow>
              build_row orders ex = Some (compose_row order ex) \<and>
              build_rows orders (ex # fills)
                = compose_row order ex # build_rows orders fills)"
proof -
  let ?ex' = "AList.delete TAG_ORIGCLORDID ex"
  have other: "\<And>k. k \<noteq> TAG_ORIGCLORDID \<Longrightarrow> map_of ?ex' k = map_of ex k"
    by (simp add: delete_conv')
  have gone: "map_of ?ex' TAG_ORIGCLORDID = None"
    by (simp add: delete_conv')
  have tags: "TAG_CLORDID \<noteq> TAG_ORIGCLORDID" "TAG_ORDTYPE \<noteq> TAG_ORIGCLORDID"
    "TAG_TRANSACTTIME \<noteq> TAG_ORIGCLORDID" "TAG_SYMBOL \<noteq> TAG_ORIGCLORDID"
    "TAG_SIDE \<noteq> TAG_ORIGCLORDID" "TAG_ORDERQTY \<noteq> TAG_ORIGCLORDID"
    "TAG_AVGPX \<noteq> TAG_ORIGCLORDID" "TAG_LASTMKT \<noteq> TAG_ORIGCLORDID"
    by (simp_all add: tag_defs str_def)
  have r: "resolve_clid ex = map_of ex TAG_CLORDID"
    using assms by (simp add: resolve_clid_def)
  have r': "resolve_clid ?ex' = map_of ex TAG_CLORDID"
    using gone other [OF tags(1)] by (simp add: resolve_clid_def)
  have row: "\<And>order. compose_row order ?ex' = compose_row order ex"
    using tags by (simp add: compose_row_def get_or_def other)
  have same: "build_row orders ex = build_row orders ?ex'"
    using r r' row other [OF tags(2)] by (simp add: build_row_def split: option.splits)
  have b: "build_row orders ex =
      (case map_of ex TAG_CLORDID of
         None \<Rightarrow> None
       | Some c \<Rightarrow>
           (case map_of orders c of
              None \<Rightarrow> None
            | Some order \<Rightarrow>
                if c \<noteq> [] \<and> order \<noteq> [] \<and>
                   (map_of ex TAG_ORDTYPE = None \<or> map_of ex TAG_ORDTYPE = Some ORDTYPE_LIMIT)
                then Some (compose_row order ex) else None))"
    unfolding r [symmetric] by (auto simp: build_row_def split: option.splits)
  have e: "build_row orders ex = Some (compose_row order ex) \<and>
      build_rows orders (ex # fills) = compose_row order ex # build_rows orders fills"
    if "map_of ex TAG_CLORDID = Some c \<and> c \<noteq> [] \<and>
      map_of orders c = Some order \<and> order \<noteq> [] \<and> map_of ex TAG_ORDTYPE = None"
    for c order
    using that by (simp add: b)
  have e': "\<forall>c order. map_of ex TAG_CLORDID = Some c \<and> c \<noteq> [] \<and>
      map_of orders c = Some order \<and> order \<noteq> [] \<and> map_of ex TAG_ORDTYPE = None \<longrightarrow>
        build_row orders ex = Some (compose_row order ex) \<and>
        build_rows orders (ex # fills) = compose_row order ex # build_rows orders fills"
    using e by blast
  have r2: "resolve_clid ex = resolve_clid ?ex'" using r r' by simp
  show ?thesis by (intro conjI) (fact r, fact r2, fact same, fact b, fact e')
qed

theorem c10_witness:
  "map_of (parse_fix_line (str ''35=8|41=|11=A1|150=2|39=2|60=T2|30=X'')) TAG_ORIGCLORDID
     = Some [] \<and>
   resolve_clid (parse_fix_line (str ''35=8|41=|11=A1|150=2|39=2|60=T2|30=X''))
     = Some (str ''A1'') \<and>
   build_row (fst (load_orders_and_fills [order_line]))
       (parse_fix_line (str ''35=8|41=|11=A1|150=2|39=2|60=T2|30=X''))
     = Some [str ''A1'', str ''20250910-08:00:00.377'', str ''T2'', str ''XYZ'', str ''1'',
             str ''100'', str ''10.50'', [], str ''X''] \<and>
   build_row (fst (load_orders_and_fills [order_line]))
       (parse_fix_line (str ''35=8|11=A1|150=2|39=2|60=T2|30=X''))
     = Some [str ''A1'', str ''20250910-08:00:00.377'', str ''T2'', str ''XYZ'', str ''1'',
             str ''100'', str ''10.50'', [], str ''X''] \<and>
   convert [order_line, str ''35=8|41=|11=A1|150=2|39=2|60=T2|30=X'']
     = [[str ''A1'', str ''20250910-08:00:00.377'', str ''T2'', str ''XYZ'', str ''1'',
         str ''100'', str ''10.50'', [], str ''X'']]"
proof -
  let ?f = "parse_fix_line (str ''35=8|41=|11=A1|150=2|39=2|60=T2|30=X'')"
  let ?os = "fst (load_orders_and_fills [order_line])"
  let ?o = "stored_order (str ''A1'') ORDTYPE_LIMIT (parse_fix_line order_line)"
  let ?row = "[str ''A1'', str ''20250910-08:00:00.377'', str ''T2'', str ''XYZ'', str ''1'',
      str ''100'', str ''10.50'', [], str ''X'']"
  have h: "map_of ?f TAG_ORIGCLORDID = Some []"
    by (simp add: eval_defs)
  have own: "map_of ?f TAG_CLORDID = Some (str ''A1'')" "map_of ?f TAG_ORDTYPE = None"
    by (simp_all add: eval_defs)
  have s: "map_of ?os (str ''A1'') = Some ?o" "str ''A1'' \<noteq> []" "?o \<noteq> []"
    by (simp_all add: eval_defs order_line_def)
  have del: "AList.delete TAG_ORIGCLORDID ?f
      = parse_fix_line (str ''35=8|11=A1|150=2|39=2|60=T2|30=X'')"
    by (simp add: eval_defs)
  have row: "compose_row ?o ?f = ?row"
    by (simp add: eval_defs order_line_def)
  have fills: "load_orders_and_fills [order_line, str ''35=8|41=|11=A1|150=2|39=2|60=T2|30=X'']
      = (?os, [?f])"
    by (simp add: eval_defs order_line_def)
  note c10 = c10_empty_original_id_falls_back [OF h, of ?os "[]"]
  from c10 own have id: "resolve_clid ?f = Some (str ''A1'')" by simp
  from c10 own s have emitted: "build_row ?os ?f = Some (compose_row ?o ?f)" by blast
  from c10 emitted del have same: "build_row ?os
      (parse_fix_line (str ''35=8|11=A1|150=2|39=2|60=T2|30=X'')) = Some (compose_row ?o ?f)"
    by simp
  from emitted fills have "convert [order_line, str ''35=8|41=|11=A1|150=2|39=2|60=T2|30=X'']
      = [compose_row ?o ?f]"
    by (simp add: convert_def)
  with h id emitted same row show ?thesis by simp
qed

end
